theory Spec2Isabelle
  imports Main "HOL-Library.Char_ord" "HOL-Library.List_Lexorder" "HOL-Library.AList"
    "HOL-Library.Multiset"
begin

section \<open>Errors and faults\<close>

text \<open>
  Go \<open>error\<close> values that the driver tells apart. \<open>ErrSyncDone\<close> is the package
  variable \<open>errSyncDone\<close>; \<open>ErrNotFound\<close> stands for every error on which the
  library predicates \<open>client.IgnoreNotFound\<close> / \<open>ngrok.IsNotFound\<close> answer
  "not found"; \<open>ErrOther\<close> carries the text of any other error of a collaborator. The
  remaining constructors are the errors the driver makes with \<open>fmt.Errorf\<close>, one
  constructor for each format string, holding the values that vary. A Go value of type
  \<open>error\<close> is an \<open>error option\<close>, \<open>None\<close> being \<open>nil\<close>.
\<close>

datatype error =
    ErrSyncDone
  | ErrNotFound
  | ErrOther string
  | CouldNotParseProtocol string
  | UnhandledProtocol string
  | UnsupportedAppProtocol string
  | NoMatchingPort string int string
  | BothPolicies string

text \<open>
  A run that does not return: a runtime panic (close of a closed channel, send on a
  closed channel, nil dereference) or a goroutine blocked for ever.
\<close>

datatype fault = Panic | Blocks

definition rbind :: "fault + 'a \<Rightarrow> ('a \<Rightarrow> fault + 'b) \<Rightarrow> fault + 'b" where
  "rbind m f = (case m of Inl e \<Rightarrow> Inl e | Inr x \<Rightarrow> f x)"

section \<open>Sync debouncer\<close>

text \<open>
  A buffered Go channel of \<open>error\<close>: the values waiting in its buffer (oldest first),
  whether it has been closed, and its capacity.
\<close>

record chan =
  ch_buf :: "error option list"
  ch_closed :: bool
  ch_cap :: nat

text \<open>
  The debouncer fields of \<open>Driver\<close>. A channel value is the index of the channel in
  \<open>chans\<close>, the heap of all channels made so far; \<open>None\<close> is the nil channel. The
  mutex \<open>syncMu\<close> is held for the whole of \<open>syncStart\<close> and \<open>syncDone\<close>, so each
  is one atomic transition of this state.
\<close>

record driver_sync =
  syncRunning :: bool
  syncFullCh :: "nat option"
  syncPartialCh :: "nat option"
  chans :: "chan list"

definition init_sync :: driver_sync where
  "init_sync = \<lparr>syncRunning = False, syncFullCh = None, syncPartialCh = None, chans = []\<rparr>"

text \<open>\<open>make(chan error, n)\<close>\<close>

definition chan_make :: "nat \<Rightarrow> driver_sync \<Rightarrow> nat \<times> driver_sync" where
  "chan_make n d =
     (length (chans d), d\<lparr>chans := chans d @ [\<lparr>ch_buf = [], ch_closed = False, ch_cap = n\<rparr>]\<rparr>)"

text \<open>\<open>close(ch)\<close>: closing a closed channel panics.\<close>

definition chan_close :: "nat \<Rightarrow> driver_sync \<Rightarrow> fault + driver_sync" where
  "chan_close ch d =
     (if ch < length (chans d) \<and> \<not> ch_closed (chans d ! ch)
      then Inr (d\<lparr>chans := (chans d)[ch := (chans d ! ch)\<lparr>ch_closed := True\<rparr>]\<rparr>)
      else Inl Panic)"

text \<open>\<open>ch <- v\<close>: panics on a closed channel, blocks while the buffer is full.\<close>

definition chan_send :: "nat \<Rightarrow> error option \<Rightarrow> driver_sync \<Rightarrow> fault + driver_sync" where
  "chan_send ch v d =
     (if ch < length (chans d) \<and> \<not> ch_closed (chans d ! ch)
      then (if length (ch_buf (chans d ! ch)) < ch_cap (chans d ! ch)
            then Inr (d\<lparr>chans := (chans d)[ch := (chans d ! ch)\<lparr>ch_buf := ch_buf (chans d ! ch) @ [v]\<rparr>]\<rparr>)
            else Inl Blocks)
      else Inl Panic)"


text \<open>
  The second result of \<open>syncStart\<close>: \<open>NoWait\<close> is the nil function returned to the
  caller that may proceed, \<open>WaitNil\<close> the closure that returns nil at once, and
  \<open>WaitOn ch\<close> the closure that selects on \<open>ch\<close> and on the context.
\<close>

datatype waiter = NoWait | WaitNil | WaitOn nat

text \<open>The two \<open>if d.syncXCh != nil { close(...); d.syncXCh = nil }\<close> blocks of \<open>syncStart\<close>.\<close>

definition overtake_full :: "driver_sync \<Rightarrow> fault + driver_sync" where
  "overtake_full d =
     (case syncFullCh d of
        None \<Rightarrow> Inr d
      | Some ch \<Rightarrow> rbind (chan_close ch d) (\<lambda>d1. Inr (d1\<lparr>syncFullCh := None\<rparr>)))"

definition overtake_partial :: "driver_sync \<Rightarrow> fault + driver_sync" where
  "overtake_partial d =
     (case syncPartialCh d of
        None \<Rightarrow> Inr d
      | Some ch \<Rightarrow> rbind (chan_close ch d) (\<lambda>d1. Inr (d1\<lparr>syncPartialCh := None\<rparr>)))"

definition syncStart :: "bool \<Rightarrow> driver_sync \<Rightarrow> fault + (bool \<times> waiter \<times> driver_sync)" where
  "syncStart partial d =
     (if \<not> syncRunning d then Inr (True, NoWait, d\<lparr>syncRunning := True\<rparr>)
      else if syncFullCh d \<noteq> None \<and> partial then Inr (False, WaitNil, d)
      else rbind (overtake_full d) (\<lambda>d1.
           rbind (overtake_partial d1) (\<lambda>d2.
             (case chan_make 1 d2 of (ch, d3) \<Rightarrow>
                Inr (False, WaitOn ch,
                     if partial then d3\<lparr>syncPartialCh := Some ch\<rparr>
                     else d3\<lparr>syncFullCh := Some ch\<rparr>)))))"

text \<open>The two \<open>if d.syncXCh != nil { ch <- errSyncDone; close(ch); d.syncXCh = nil }\<close> blocks of \<open>syncDone\<close>.\<close>

definition signal_full :: "driver_sync \<Rightarrow> fault + driver_sync" where
  "signal_full d =
     (case syncFullCh d of
        None \<Rightarrow> Inr d
      | Some ch \<Rightarrow> rbind (chan_send ch (Some ErrSyncDone) d) (\<lambda>d1.
                  rbind (chan_close ch d1) (\<lambda>d2. Inr (d2\<lparr>syncFullCh := None\<rparr>))))"

definition signal_partial :: "driver_sync \<Rightarrow> fault + driver_sync" where
  "signal_partial d =
     (case syncPartialCh d of
        None \<Rightarrow> Inr d
      | Some ch \<Rightarrow> rbind (chan_send ch (Some ErrSyncDone) d) (\<lambda>d1.
                  rbind (chan_close ch d1) (\<lambda>d2. Inr (d2\<lparr>syncPartialCh := None\<rparr>))))"

definition syncDone :: "driver_sync \<Rightarrow> fault + driver_sync" where
  "syncDone d =
     rbind (signal_full d) (\<lambda>d1.
     rbind (signal_partial d1) (\<lambda>d2. Inr (d2\<lparr>syncRunning := False\<rparr>)))"

text \<open>A sequence of calls of \<open>syncStart\<close> and \<open>syncDone\<close>, run from a given state.\<close>

datatype sync_call = SyncStart bool | SyncDone

fun sync_step :: "sync_call \<Rightarrow> driver_sync \<Rightarrow> fault + driver_sync" where
  "sync_step (SyncStart partial) d = rbind (syncStart partial d) (\<lambda>(proceed, wait, d'). Inr d')"
| "sync_step SyncDone d = syncDone d"

fun run_calls :: "sync_call list \<Rightarrow> driver_sync \<Rightarrow> fault + driver_sync" where
  "run_calls [] d = Inr d"
| "run_calls (c # cs) d = rbind (sync_step c d) (run_calls cs)"

section \<open>Objects\<close>

text \<open>
  The Kubernetes and ngrok objects, with the fields the driver reads or writes. A Go
  \<open>map[string]string\<close> is a map \<open>string \<rightharpoonup> string\<close> (the nil map and the empty map are
  both \<open>Map.empty\<close>, except for \<open>Annotations\<close>, whose nil test the code performs);
  a slice is a list (nil and empty are both \<open>[]\<close>); a pointer that may be nil is an
  \<open>option\<close>; \<open>int32\<close> port numbers are \<open>int\<close> (the code does no arithmetic on them).
  The specs of domains hold strings, and \<open>reflect.DeepEqual\<close> on them is HOL equality.
  The specs of edges hold slices and maps, and \<open>reflect.DeepEqual\<close> tells a nil slice
  or map from an empty one: in \<open>HTTPSEdgeSpec\<close> and \<open>HTTPSEdgeRouteSpec\<close> a slice, a
  map and a \<open>json.RawMessage\<close> are an \<open>option\<close>, \<open>None\<close> for nil, and \<open>elems\<close> gives
  the elements that \<open>len\<close>, \<open>range\<close>, an index and \<open>append\<close> see. With that,
  \<open>reflect.DeepEqual\<close> on the specs of edges is HOL equality too.
\<close>

definition elems :: "'a list option \<Rightarrow> 'a list" where
  "elems s = (case s of None \<Rightarrow> [] | Some xs \<Rightarrow> xs)"

record OwnerReference =
  ref_APIVersion :: string
  ref_Kind :: string
  ref_Name :: string
  ref_UID :: string

record ObjectMeta =
  Name :: string
  GenerateName :: string
  Namespace :: string
  UID :: string
  OwnerReferences :: "OwnerReference list"
  Labels :: "string \<rightharpoonup> string"
  Annotations :: "(string \<rightharpoonup> string) option"

text \<open>The zero value \<open>metav1.ObjectMeta{}\<close>.\<close>

definition ObjectMeta0 :: ObjectMeta where
  "ObjectMeta0 = \<lparr>Name = [], GenerateName = [], Namespace = [], UID = [],
     OwnerReferences = [], Labels = Map.empty, Annotations = None\<rparr>"

record ServiceBackendPort =
  sbp_Name :: string
  sbp_Number :: int

record IngressServiceBackend =
  isb_Name :: string
  isb_Port :: ServiceBackendPort

text \<open>
  \<open>pth_PathType\<close> is the \<open>*PathType\<close> (a string type); \<open>pth_Service\<close> is
  \<open>Backend.Service\<close>. \<open>rule_HTTP\<close> is the pointer \<open>rule.HTTP\<close>, holding \<open>Paths\<close>.
\<close>

record HTTPIngressPath =
  pth_Path :: string
  pth_PathType :: "string option"
  pth_Service :: "IngressServiceBackend option"

record IngressRule =
  rule_Host :: string
  rule_HTTP :: "HTTPIngressPath list option"

record Ingress =
  ing_APIVersion :: string
  ing_Kind :: string
  ing_Meta :: ObjectMeta
  ing_Rules :: "IngressRule list"

record ServicePort =
  sp_Name :: string
  sp_Port :: int
  sp_AppProtocol :: "string option"

record Service =
  svc_Meta :: ObjectMeta
  svc_Ports :: "ServicePort list"

record DomainSpec =
  ds_Domain :: string
  ds_Metadata :: string

record DomainStatus =
  dst_Domain :: string
  dst_CNAMETarget :: "string option"

record Domain =
  dom_Meta :: ObjectMeta
  dom_Spec :: DomainSpec
  dom_Status :: DomainStatus

definition DomainStatus0 :: DomainStatus where
  "DomainStatus0 = \<lparr>dst_Domain = [], dst_CNAMETarget = None\<rparr>"

text \<open>
  The module configurations of a module set are opaque to the driver: it copies them
  from the module set into each route. Each is a pointer, here an optional string that
  stands for the configuration; two configurations are deeply equal exactly when the
  strings are equal. \<open>mod_TLSTermination\<close> is the pointer to the struct whose
  \<open>MinVersion\<close> is again a pointer. \<open>rt_Other\<close> and \<open>es_Other\<close> stand, in the same
  way, for the fields of a route and of an edge spec that the driver never names; they
  have their zero value, the empty string, in what the driver builds.
\<close>

record Modules =
  mod_Compression :: "string option"
  mod_Headers :: "string option"
  mod_IPRestriction :: "string option"
  mod_TLSTermination :: "string option option"
  mod_MutualTLS :: "string option"
  mod_WebhookVerification :: "string option"
  mod_CircuitBreaker :: "string option"
  mod_OAuth :: "string option"
  mod_OIDC :: "string option"
  mod_SAML :: "string option"
  mod_Policy :: "string option"

record HTTPSEdgeRouteSpec =
  rt_Metadata :: string
  rt_Match :: string
  rt_MatchType :: string
  rt_Backend_Labels :: "(string \<rightharpoonup> string) option"
  rt_CircuitBreaker :: "string option"
  rt_Compression :: "string option"
  rt_IPRestriction :: "string option"
  rt_Headers :: "string option"
  rt_OAuth :: "string option"
  rt_Policy :: "string option"
  rt_OIDC :: "string option"
  rt_SAML :: "string option"
  rt_WebhookVerification :: "string option"
  rt_Other :: string

record HTTPSEdgeSpec =
  es_Metadata :: string
  es_Hostports :: "string list option"
  es_Routes :: "HTTPSEdgeRouteSpec list option"
  es_TLSTermination :: "string option"
  es_MutualTLS :: "string option"
  es_Other :: string

record HTTPSEdge =
  edge_Meta :: ObjectMeta
  edge_Spec :: HTTPSEdgeSpec

record TunnelSpec =
  ts_ForwardsTo :: string
  ts_Labels :: "string \<rightharpoonup> string"
  ts_Protocol :: string
  ts_AppProtocol :: string

record Tunnel =
  tun_Meta :: ObjectMeta
  tun_Spec :: TunnelSpec

record tunnelKey =
  tk_namespace :: string
  tk_service :: string
  tk_port :: string

section \<open>The backing-store client\<close>

text \<open>
  The \<open>client.Client\<close> handed to the apply functions is an arbitrary state machine:
  each operation takes the client's state and returns its answer and the next state.
  The driver's view of it is the trace of calls it has issued.
\<close>

datatype obj = DomainObj Domain | EdgeObj HTTPSEdge | TunnelObj Tunnel

datatype list_kind = DomainList | HTTPSEdgeList | TunnelList

datatype call =
    CallList list_kind "string \<rightharpoonup> string"
  | CallCreate obj
  | CallUpdate obj
  | CallDelete obj
  | CallStatusUpdate Ingress

record 'c Client =
  cl_Create :: "obj \<Rightarrow> 'c \<Rightarrow> error option \<times> 'c"
  cl_Update :: "obj \<Rightarrow> 'c \<Rightarrow> error option \<times> 'c"
  cl_Delete :: "obj \<Rightarrow> 'c \<Rightarrow> error option \<times> 'c"
  cl_ListEdges :: "(string \<rightharpoonup> string) \<Rightarrow> 'c \<Rightarrow> (error + HTTPSEdge list) \<times> 'c"

record 'c world =
  cstate :: 'c
  trace :: "call list"

definition Create :: "'c Client \<Rightarrow> obj \<Rightarrow> 'c world \<Rightarrow> error option \<times> 'c world" where
  "Create cl x w =
     (case cl_Create cl x (cstate w) of
        (err, s) \<Rightarrow> (err, \<lparr>cstate = s, trace = trace w @ [CallCreate x]\<rparr>))"

definition Update :: "'c Client \<Rightarrow> obj \<Rightarrow> 'c world \<Rightarrow> error option \<times> 'c world" where
  "Update cl x w =
     (case cl_Update cl x (cstate w) of
        (err, s) \<Rightarrow> (err, \<lparr>cstate = s, trace = trace w @ [CallUpdate x]\<rparr>))"

definition Delete :: "'c Client \<Rightarrow> obj \<Rightarrow> 'c world \<Rightarrow> error option \<times> 'c world" where
  "Delete cl x w =
     (case cl_Delete cl x (cstate w) of
        (err, s) \<Rightarrow> (err, \<lparr>cstate = s, trace = trace w @ [CallDelete x]\<rparr>))"

definition ListEdges ::
  "'c Client \<Rightarrow> (string \<rightharpoonup> string) \<Rightarrow> 'c world \<Rightarrow> (error + HTTPSEdge list) \<times> 'c world" where
  "ListEdges cl sel w =
     (case cl_ListEdges cl sel (cstate w) of
        (r, s) \<Rightarrow> (r, \<lparr>cstate = s, trace = trace w @ [CallList HTTPSEdgeList sel]\<rparr>))"

text \<open>\<open>client.IgnoreNotFound\<close>\<close>

definition IgnoreNotFound :: "error option \<Rightarrow> error option" where
  "IgnoreNotFound err = (if err = Some ErrNotFound then None else err)"

section \<open>Applying domains\<close>

text \<open>
  The inner loop of \<open>applyDomains\<close> over \<open>currentDomains\<close>. It stops at the first current
  domain with the name and namespace of the desired one, after updating it if the
  specs differ. The result is \<open>found\<close>, the error that makes \<open>applyDomains\<close> return, and
  the world.
\<close>

fun applyDomains_inner ::
  "'c Client \<Rightarrow> Domain \<Rightarrow> Domain list \<Rightarrow> 'c world \<Rightarrow> bool \<times> error option \<times> 'c world" where
  "applyDomains_inner cl desiredDomain [] w = (False, None, w)"
| "applyDomains_inner cl desiredDomain (currDomain # rest) w =
     (if Name (dom_Meta desiredDomain) = Name (dom_Meta currDomain) \<and>
         Namespace (dom_Meta desiredDomain) = Namespace (dom_Meta currDomain)
      then (if dom_Spec desiredDomain \<noteq> dom_Spec currDomain
            then (case Update cl (DomainObj (currDomain\<lparr>dom_Spec := dom_Spec desiredDomain\<rparr>)) w of
                    (Some err, w') \<Rightarrow> (False, Some err, w')
                  | (None, w') \<Rightarrow> (True, None, w'))
            else (True, None, w))
      else applyDomains_inner cl desiredDomain rest w)"

fun applyDomains ::
  "'c Client \<Rightarrow> Domain list \<Rightarrow> Domain list \<Rightarrow> 'c world \<Rightarrow> error option \<times> 'c world" where
  "applyDomains cl [] currentDomains w = (None, w)"
| "applyDomains cl (desiredDomain # rest) currentDomains w =
     (case applyDomains_inner cl desiredDomain currentDomains w of
        (found, Some err, w1) \<Rightarrow> (Some err, w1)
      | (found, None, w1) \<Rightarrow>
          (if \<not> found
           then (case Create cl (DomainObj desiredDomain) w1 of
                   (Some err, w2) \<Rightarrow> (Some err, w2)
                 | (None, w2) \<Rightarrow> applyDomains cl rest currentDomains w2)
           else applyDomains cl rest currentDomains w1))"

text \<open>
  What a call of domain reconciliation may be: the creation of a desired domain that no
  current domain matches by name and namespace, or the update of a current domain that
  matches a desired one of a different spec, to that spec.
\<close>

definition domain_match :: "Domain \<Rightarrow> Domain \<Rightarrow> bool" where
  "domain_match desiredDomain currDomain \<longleftrightarrow>
     Name (dom_Meta desiredDomain) = Name (dom_Meta currDomain) \<and>
     Namespace (dom_Meta desiredDomain) = Namespace (dom_Meta currDomain)"

definition domain_call_ok :: "Domain list \<Rightarrow> Domain list \<Rightarrow> call \<Rightarrow> bool" where
  "domain_call_ok desiredDomains currentDomains c \<longleftrightarrow>
     (\<exists>d \<in> set desiredDomains.
        (c = CallCreate (DomainObj d) \<and> \<not> (\<exists>cur \<in> set currentDomains. domain_match d cur)) \<or>
        (\<exists>cur \<in> set currentDomains. domain_match d cur \<and> dom_Spec d \<noteq> dom_Spec cur \<and>
           c = CallUpdate (DomainObj (cur\<lparr>dom_Spec := dom_Spec d\<rparr>))))"

definition is_delete :: "call \<Rightarrow> bool" where
  "is_delete c = (case c of CallDelete x \<Rightarrow> True | _ \<Rightarrow> False)"

text \<open>
  The calls that domain reconciliation issues when no call fails, in order: for each
  desired domain, nothing if the first current domain that matches it has its spec,
  the update of that current domain if the specs differ, and the creation of the
  desired domain if no current domain matches.
\<close>

definition domain_calls_one :: "Domain list \<Rightarrow> Domain \<Rightarrow> call list" where
  "domain_calls_one currentDomains d =
     (case find (domain_match d) currentDomains of
        None \<Rightarrow> [CallCreate (DomainObj d)]
      | Some cur \<Rightarrow>
          if dom_Spec d \<noteq> dom_Spec cur then [CallUpdate (DomainObj (cur\<lparr>dom_Spec := dom_Spec d\<rparr>))]
          else [])"

definition domain_calls :: "Domain list \<Rightarrow> Domain list \<Rightarrow> call list" where
  "domain_calls desiredDomains currentDomains =
     concat (map (domain_calls_one currentDomains) desiredDomains)"

section \<open>TLS edge reconciler\<close>

record TLSEdgeStatus =
  tst_ID :: string
  tst_Backend_ID :: string
  tst_Hostports :: "string list"

record TLSEdge =
  tls_Meta :: ObjectMeta
  tls_Hostports :: "string list"
  tls_Status :: TLSEdgeStatus

text \<open>\<open>ngrok.IsNotFound\<close>, on a non-nil error.\<close>

definition IsNotFound :: "error option \<Rightarrow> bool" where
  "IsNotFound err \<longleftrightarrow> err = Some ErrNotFound"

text \<open>
  \<open>TLSEdgeReconciler.delete\<close>. \<open>TLSEdges_Delete\<close> is the remote call
  \<open>r.NgrokClientset.TLSEdges().Delete(ctx, id)\<close>, an arbitrary state machine \<open>'n\<close>.
  The result is the returned error, the edge as the method leaves it, and the state of
  the remote API.
\<close>

definition TLSEdge_delete ::
  "(string \<Rightarrow> 'n \<Rightarrow> error option \<times> 'n) \<Rightarrow> TLSEdge \<Rightarrow> 'n \<Rightarrow> error option \<times> TLSEdge \<times> 'n" where
  "TLSEdge_delete TLSEdges_Delete edge n =
     (case TLSEdges_Delete (tst_ID (tls_Status edge)) n of
        (err, n') \<Rightarrow>
          (err,
           (if err = None \<or> IsNotFound err
            then edge\<lparr>tls_Status := (tls_Status edge)\<lparr>tst_ID := []\<rparr>\<rparr>
            else edge),
           n'))"

section \<open>Protocol of a tunnel backend\<close>

text \<open>
  \<open>getPortAnnotatedProtocol\<close>. Two functions of the Go library are parameters:
  \<open>Unmarshal\<close> is \<open>json.Unmarshal\<close> into a \<open>map[string]string\<close>, \<open>None\<close> when it
  returns an error, and \<open>ToUpper\<close> is \<open>strings.ToUpper\<close>, which maps by the Unicode
  tables.
\<close>

definition getPortAnnotatedProtocol ::
  "(string \<Rightarrow> (string \<rightharpoonup> string) option) \<Rightarrow> (string \<Rightarrow> string) \<Rightarrow> Service \<Rightarrow> string \<Rightarrow>
   error + string" where
  "getPortAnnotatedProtocol Unmarshal ToUpper service portName =
     (case Annotations (svc_Meta service) of
        None \<Rightarrow> Inr ''HTTP''
      | Some annotations \<Rightarrow>
          (case annotations ''k8s.ngrok.com/app-protocols'' of
             None \<Rightarrow> Inr ''HTTP''
           | Some annotation \<Rightarrow>
               if annotation \<noteq> []
               then (case Unmarshal annotation of
                       None \<Rightarrow> Inl (CouldNotParseProtocol annotation)
                     | Some m \<Rightarrow>
                         (case m portName of
                            Some protocol \<Rightarrow>
                              (let upperProto = ToUpper protocol
                               in if upperProto = ''HTTP'' \<or> upperProto = ''HTTPS''
                                  then Inr upperProto
                                  else Inl (UnhandledProtocol upperProto))
                          | None \<Rightarrow> Inr ''HTTP''))
               else Inr ''HTTP''))"


definition ToUpper_ascii_char :: "char \<Rightarrow> char" where
  "ToUpper_ascii_char c =
     (if CHR ''a'' \<le> c \<and> c \<le> CHR ''z'' then char_of (of_char c - (32::nat)) else c)"






section \<open>The driver and its collaborators\<close>

record Listener =
  lis_Hostname :: "string option"

record Gateway =
  gw_Meta :: ObjectMeta
  gw_Listeners :: "Listener list"

text \<open>
  The \<open>Storer\<close> behind \<open>d.store\<close> is not part of the driver: its queries are
  parameters. \<open>GetNgrokModuleSetV1\<close> yields the \<open>Modules\<close> of the module set found and
  \<open>GetNgrokTrafficPolicyV1\<close> the \<open>Spec.Policy\<close>, a \<open>json.RawMessage\<close>, of the policy
  found (the pointer it returns may be nil, and so may the message).
\<close>

record Storer =
  ListNgrokIngressesV1 :: "Ingress list"
  ListGateways :: "Gateway list"
  GetServiceV1 :: "string \<Rightarrow> string \<Rightarrow> error + Service"
  GetNgrokModuleSetV1 :: "string \<Rightarrow> string \<Rightarrow> error + Modules"
  GetNgrokTrafficPolicyV1 :: "string \<Rightarrow> string \<Rightarrow> error + string option option"

text \<open>
  Functions of other packages that the driver calls: \<open>json.Unmarshal\<close> into a
  \<open>map[string]string\<close> (\<open>None\<close> on error), \<open>strings.ToUpper\<close>, \<open>json.Marshal\<close> of
  the module-set policy (the bytes it returns are not nil),
  the annotation parsers, \<open>errors.IsMissingAnnotations\<close>, \<open>NgrokModuleSet.Merge\<close> and
  \<open>HyphenatedDomainNameFromURL\<close>.
\<close>

record Lib =
  Unmarshal :: "string \<Rightarrow> (string \<rightharpoonup> string) option"
  ToUpper :: "string \<Rightarrow> string"
  Marshal :: "string option \<Rightarrow> error + string"
  ExtractNgrokModuleSetsFromAnnotations :: "Ingress \<Rightarrow> error + string list"
  ExtractNgrokTrafficPolicyFromAnnotations :: "Ingress \<Rightarrow> error + string"
  IsMissingAnnotations :: "error \<Rightarrow> bool"
  Merge :: "Modules \<Rightarrow> Modules \<Rightarrow> Modules"
  HyphenatedDomainNameFromURL :: "string \<Rightarrow> string"

record NamespacedName =
  nn_Namespace :: string
  nn_Name :: string

text \<open>
  The fields of \<open>Driver\<close> that do not change during a sync. \<open>gatewayEdgeMap\<close> is not a
  field: it stands for the block of \<open>calculateHTTPSEdges\<close> guarded by
  \<open>d.gatewayEnabled\<close>, which derives the gateway edges from the store and the gateway
  domain map (and may panic); that block calls neither the client nor the debouncer and
  is a parameter here.
\<close>

record Driver =
  store :: Storer
  ingressNgrokMetadata :: string
  gatewayNgrokMetadata :: string
  managerName :: NamespacedName
  clusterDomain :: string
  syncAllowConcurrent :: bool
  gatewayEnabled :: bool
  gatewayEdgeMap :: "(string \<times> Domain) list \<Rightarrow> fault + (string \<times> HTTPSEdge) list"

section \<open>Strings\<close>

text \<open>\<open>strconv.Itoa\<close> and the verb \<open>%d\<close>: the decimal digits, with a minus sign for a negative number.\<close>

function nat_dec :: "nat \<Rightarrow> string" where
  "nat_dec n = (if n < 10 then [char_of (48 + n)] else nat_dec (n div 10) @ [char_of (48 + n mod 10)])"
  by pat_completeness auto
termination
  by (relation "measure id") auto

definition Itoa :: "int \<Rightarrow> string" where
  "Itoa i = (if i < 0 then CHR ''-'' # nat_dec (nat (- i)) else nat_dec (nat i))"

text \<open>\<open>strings.TrimSuffix\<close>\<close>

definition TrimSuffix :: "string \<Rightarrow> string \<Rightarrow> string" where
  "TrimSuffix s suffix =
     (if length suffix \<le> length s \<and> drop (length s - length suffix) s = suffix
      then take (length s - length suffix) s
      else s)"

section \<open>Labels\<close>

definition labelControllerNamespace :: string where
  "labelControllerNamespace = ''k8s.ngrok.com/controller-namespace''"

definition labelControllerName :: string where
  "labelControllerName = ''k8s.ngrok.com/controller-name''"

definition labelNamespace :: string where
  "labelNamespace = ''k8s.ngrok.com/namespace''"

definition labelServiceUID :: string where
  "labelServiceUID = ''k8s.ngrok.com/service-uid''"

definition labelService :: string where
  "labelService = ''k8s.ngrok.com/service''"

definition labelPort :: string where
  "labelPort = ''k8s.ngrok.com/port''"

definition edgeLabels :: "Driver \<Rightarrow> (string \<rightharpoonup> string)" where
  "edgeLabels d =
     [labelControllerNamespace \<mapsto> nn_Namespace (managerName d),
      labelControllerName \<mapsto> nn_Name (managerName d)]"

definition tunnelLabels :: "Driver \<Rightarrow> string \<Rightarrow> int \<Rightarrow> (string \<rightharpoonup> string)" where
  "tunnelLabels d serviceName port =
     [labelControllerNamespace \<mapsto> nn_Namespace (managerName d),
      labelControllerName \<mapsto> nn_Name (managerName d),
      labelService \<mapsto> serviceName,
      labelPort \<mapsto> Itoa port]"

definition ngrokLabels :: "string \<Rightarrow> string \<Rightarrow> string \<Rightarrow> int \<Rightarrow> (string \<rightharpoonup> string)" where
  "ngrokLabels namespace serviceUID serviceName port =
     [labelNamespace \<mapsto> namespace,
      labelServiceUID \<mapsto> serviceUID,
      labelService \<mapsto> serviceName,
      labelPort \<mapsto> Itoa port]"

section \<open>Domain calculator\<close>

text \<open>
  A Go map that the driver fills and then ranges over is an association list with
  distinct keys: \<open>m[k] = v\<close> is \<open>AList.update\<close>, a lookup is \<open>map_of\<close>, \<open>delete(m, k)\<close>
  is \<open>AList.delete\<close>, and \<open>range\<close> visits the entries in the order of the list. Go
  leaves the order of \<open>range\<close> over a map open; nothing below depends on it.
\<close>

text \<open>The loop of \<open>calculateDomainsFromIngress\<close> over the rules of one ingress.\<close>

fun domains_rules ::
  "Driver \<Rightarrow> Lib \<Rightarrow> Ingress \<Rightarrow> IngressRule list \<Rightarrow> (string \<times> Domain) list \<Rightarrow> (string \<times> Domain) list" where
  "domains_rules d lib ingress [] domainMap = domainMap"
| "domains_rules d lib ingress (rule # rest) domainMap =
     (if rule_Host rule = [] then domains_rules d lib ingress rest domainMap
      else domains_rules d lib ingress rest
             (AList.update (rule_Host rule)
                \<lparr>dom_Meta = ObjectMeta0\<lparr>Name := HyphenatedDomainNameFromURL lib (rule_Host rule),
                                        Namespace := Namespace (ing_Meta ingress)\<rparr>,
                 dom_Spec = \<lparr>ds_Domain = rule_Host rule, ds_Metadata = ingressNgrokMetadata d\<rparr>,
                 dom_Status = DomainStatus0\<rparr>
                domainMap))"

fun domains_ingresses ::
  "Driver \<Rightarrow> Lib \<Rightarrow> Ingress list \<Rightarrow> (string \<times> Domain) list \<Rightarrow> (string \<times> Domain) list" where
  "domains_ingresses d lib [] domainMap = domainMap"
| "domains_ingresses d lib (ingress # rest) domainMap =
     domains_ingresses d lib rest (domains_rules d lib ingress (ing_Rules ingress) domainMap)"

definition calculateDomainsFromIngress :: "Driver \<Rightarrow> Lib \<Rightarrow> (string \<times> Domain) list" where
  "calculateDomainsFromIngress d lib =
     domains_ingresses d lib (ListNgrokIngressesV1 (store d)) []"

fun gwdomains_listeners ::
  "Driver \<Rightarrow> Lib \<Rightarrow> (string \<times> Domain) list \<Rightarrow> Gateway \<Rightarrow> Listener list \<Rightarrow>
   (string \<times> Domain) list \<Rightarrow> (string \<times> Domain) list" where
  "gwdomains_listeners d lib ingressDomains gw [] domainMap = domainMap"
| "gwdomains_listeners d lib ingressDomains gw (listener # rest) domainMap =
     (case lis_Hostname listener of
        None \<Rightarrow> gwdomains_listeners d lib ingressDomains gw rest domainMap
      | Some domainName \<Rightarrow>
          (if map_of ingressDomains domainName \<noteq> None
           then gwdomains_listeners d lib ingressDomains gw rest domainMap
           else gwdomains_listeners d lib ingressDomains gw rest
                  (AList.update domainName
                     \<lparr>dom_Meta = ObjectMeta0\<lparr>Name := HyphenatedDomainNameFromURL lib domainName,
                                             Namespace := Namespace (gw_Meta gw)\<rparr>,
                      dom_Spec = \<lparr>ds_Domain = domainName, ds_Metadata = gatewayNgrokMetadata d\<rparr>,
                      dom_Status = DomainStatus0\<rparr>
                     domainMap)))"

fun gwdomains_gateways ::
  "Driver \<Rightarrow> Lib \<Rightarrow> (string \<times> Domain) list \<Rightarrow> Gateway list \<Rightarrow>
   (string \<times> Domain) list \<Rightarrow> (string \<times> Domain) list" where
  "gwdomains_gateways d lib ingressDomains [] domainMap = domainMap"
| "gwdomains_gateways d lib ingressDomains (gw # rest) domainMap =
     gwdomains_gateways d lib ingressDomains rest
       (gwdomains_listeners d lib ingressDomains gw (gw_Listeners gw) domainMap)"

definition calculateDomainsFromGateway ::
  "Driver \<Rightarrow> Lib \<Rightarrow> (string \<times> Domain) list \<Rightarrow> (string \<times> Domain) list" where
  "calculateDomainsFromGateway d lib ingressDomains =
     gwdomains_gateways d lib ingressDomains (ListGateways (store d)) []"

text \<open>\<open>calculateDomains\<close>: all domains, the ingress domains, and the gateway domain map.\<close>

definition calculateDomains ::
  "Driver \<Rightarrow> Lib \<Rightarrow> Domain list \<times> Domain list \<times> (string \<times> Domain) list" where
  "calculateDomains d lib =
     (let ingressDomainMap = calculateDomainsFromIngress d lib;
          ingressDomains = map snd ingressDomainMap;
          gatewayDomainMap =
            (if gatewayEnabled d then calculateDomainsFromGateway d lib ingressDomainMap else [])
      in (ingressDomains @ map snd gatewayDomainMap, ingressDomains, gatewayDomainMap))"

text \<open>The domain record that \<open>calculateDomainsFromIngress\<close> makes for a host of an ingress of a namespace.\<close>

definition ingressDomain :: "Driver \<Rightarrow> Lib \<Rightarrow> string \<Rightarrow> string \<Rightarrow> Domain" where
  "ingressDomain d lib namespace host =
     \<lparr>dom_Meta = ObjectMeta0\<lparr>Name := HyphenatedDomainNameFromURL lib host, Namespace := namespace\<rparr>,
      dom_Spec = \<lparr>ds_Domain = host, ds_Metadata = ingressNgrokMetadata d\<rparr>,
      dom_Status = DomainStatus0\<rparr>"

text \<open>The rule hosts of an ingress, and those of them that are not empty.\<close>

definition rule_hosts :: "Ingress \<Rightarrow> string set" where
  "rule_hosts ingress = set (map rule_Host (ing_Rules ingress))"

definition named_hosts :: "Ingress \<Rightarrow> string set" where
  "named_hosts ingress = rule_hosts ingress - {[]}"

text \<open>The namespace of the last ingress of a list that has a rule for a host.\<close>

fun last_claimant :: "Ingress list \<Rightarrow> string \<Rightarrow> string option" where
  "last_claimant [] host = None"
| "last_claimant (ingress # rest) host =
     (case last_claimant rest host of
        Some ns \<Rightarrow> Some ns
      | None \<Rightarrow> if host \<in> rule_hosts ingress then Some (Namespace (ing_Meta ingress)) else None)"

section \<open>Backend resolution\<close>

text \<open>The loop of \<open>findServicesPort\<close> over \<open>service.Spec.Ports\<close>, and the function.\<close>

fun findServicesPort_loop :: "ServicePort list \<Rightarrow> ServiceBackendPort \<Rightarrow> ServicePort option" where
  "findServicesPort_loop [] backendSvcPort = None"
| "findServicesPort_loop (port # rest) backendSvcPort =
     (if (sbp_Number backendSvcPort > 0 \<and> sp_Port port = sbp_Number backendSvcPort) \<or>
         sp_Name port = sbp_Name backendSvcPort
      then Some port
      else findServicesPort_loop rest backendSvcPort)"

definition findServicesPort :: "Service \<Rightarrow> ServiceBackendPort \<Rightarrow> error + ServicePort" where
  "findServicesPort service backendSvcPort =
     (case findServicesPort_loop (svc_Ports service) backendSvcPort of
        Some port \<Rightarrow> Inr port
      | None \<Rightarrow> Inl (NoMatchingPort (Name (svc_Meta service)) (sbp_Number backendSvcPort)
                      (sbp_Name backendSvcPort)))"

definition findBackendServicePort ::
  "Driver \<Rightarrow> IngressServiceBackend \<Rightarrow> string \<Rightarrow> error + (Service \<times> ServicePort)" where
  "findBackendServicePort d backendSvc namespace =
     (case GetServiceV1 (store d) (isb_Name backendSvc) namespace of
        Inl err \<Rightarrow> Inl err
      | Inr service \<Rightarrow>
          (case findServicesPort service (isb_Port backendSvc) of
             Inl err \<Rightarrow> Inl err
           | Inr servicePort \<Rightarrow> Inr (service, servicePort)))"

definition getEdgeBackend ::
  "Driver \<Rightarrow> IngressServiceBackend \<Rightarrow> string \<Rightarrow> error + (string \<times> int)" where
  "getEdgeBackend d backendSvc namespace =
     (case findBackendServicePort d backendSvc namespace of
        Inl err \<Rightarrow> Inl err
      | Inr (service, servicePort) \<Rightarrow> Inr (UID (svc_Meta service), sp_Port servicePort))"

definition getPortAppProtocol :: "Service \<Rightarrow> ServicePort \<Rightarrow> error + string" where
  "getPortAppProtocol service port =
     (case sp_AppProtocol port of
        None \<Rightarrow> Inr []
      | Some proto \<Rightarrow>
          if proto = ''k8s.ngrok.com/http2'' \<or> proto = ''kubernetes.io/h2c'' then Inr ''http2''
          else if proto = [] then Inr []
          else Inl (UnsupportedAppProtocol proto))"

text \<open>\<open>getTunnelBackend\<close>: service UID, port, protocol and app protocol.\<close>

definition getTunnelBackend ::
  "Driver \<Rightarrow> Lib \<Rightarrow> IngressServiceBackend \<Rightarrow> string \<Rightarrow> error + (string \<times> int \<times> string \<times> string)" where
  "getTunnelBackend d lib backendSvc namespace =
     (case findBackendServicePort d backendSvc namespace of
        Inl err \<Rightarrow> Inl err
      | Inr (service, servicePort) \<Rightarrow>
          (case getPortAnnotatedProtocol (Unmarshal lib) (ToUpper lib) service (sp_Name servicePort) of
             Inl err \<Rightarrow> Inl err
           | Inr protocol \<Rightarrow>
               (case getPortAppProtocol service servicePort of
                  Inl err \<Rightarrow> Inl err
                | Inr appProtocol \<Rightarrow>
                    Inr (UID (svc_Meta service), sp_Port servicePort, protocol, appProtocol))))"

section \<open>Tunnel calculator\<close>

text \<open>The owner reference that \<open>calculateTunnelsFromIngress\<close> appends for an ingress.\<close>

definition ingressOwnerReference :: "Ingress \<Rightarrow> OwnerReference" where
  "ingressOwnerReference ingress =
     \<lparr>ref_APIVersion = ing_APIVersion ingress, ref_Kind = ing_Kind ingress,
      ref_Name = Name (ing_Meta ingress), ref_UID = UID (ing_Meta ingress)\<rparr>"

text \<open>
  The identity key of the tunnel of a service backend of an ingress, and the tunnel made
  when the key is new. When \<open>getTunnelBackend\<close> returns an error, the code logs it and
  goes on with the zero values it returned beside the error.
\<close>

definition tunnelBackendOrZero ::
  "Driver \<Rightarrow> Lib \<Rightarrow> IngressServiceBackend \<Rightarrow> string \<Rightarrow> string \<times> int \<times> string \<times> string" where
  "tunnelBackendOrZero d lib backendSvc namespace =
     (case getTunnelBackend d lib backendSvc namespace of
        Inl err \<Rightarrow> ([], 0, [], [])
      | Inr r \<Rightarrow> r)"

definition ingressTunnelKey :: "Driver \<Rightarrow> Lib \<Rightarrow> Ingress \<Rightarrow> IngressServiceBackend \<Rightarrow> tunnelKey" where
  "ingressTunnelKey d lib ingress backendSvc =
     (case tunnelBackendOrZero d lib backendSvc (Namespace (ing_Meta ingress)) of
        (serviceUID, servicePort, protocol, appProtocol) \<Rightarrow>
          \<lparr>tk_namespace = Namespace (ing_Meta ingress), tk_service = isb_Name backendSvc,
           tk_port = Itoa servicePort\<rparr>)"

definition newIngressTunnel :: "Driver \<Rightarrow> Lib \<Rightarrow> Ingress \<Rightarrow> IngressServiceBackend \<Rightarrow> Tunnel" where
  "newIngressTunnel d lib ingress backendSvc =
     (case tunnelBackendOrZero d lib backendSvc (Namespace (ing_Meta ingress)) of
        (serviceUID, servicePort, protocol, appProtocol) \<Rightarrow>
          \<lparr>tun_Meta = ObjectMeta0
             \<lparr>GenerateName := isb_Name backendSvc @ ''-'' @ Itoa servicePort @ ''-'',
              Namespace := Namespace (ing_Meta ingress),
              OwnerReferences := [],
              Labels := tunnelLabels d (isb_Name backendSvc) servicePort\<rparr>,
           tun_Spec =
             \<lparr>ts_ForwardsTo = isb_Name backendSvc @ ''.'' @ Namespace (ing_Meta ingress) @ ''.'' @
                               clusterDomain d @ '':'' @ Itoa servicePort,
              ts_Labels = ngrokLabels (Namespace (ing_Meta ingress)) serviceUID (isb_Name backendSvc)
                            servicePort,
              ts_Protocol = protocol,
              ts_AppProtocol = appProtocol\<rparr>\<rparr>)"

text \<open>
  The part of the loop body after the tunnel is found or made: the owner reference of
  the ingress is appended unless a reference with its UID is there, and the references
  are sorted again, stably, by UID (\<open>cmp.Compare\<close> on strings is the bytewise
  lexicographic order, the order of \<open>string\<close> here).
\<close>

definition addIngressReference :: "Ingress \<Rightarrow> Tunnel \<Rightarrow> Tunnel" where
  "addIngressReference ingress tunnel =
     (if list_ex (\<lambda>ref. ref_UID ref = UID (ing_Meta ingress)) (OwnerReferences (tun_Meta tunnel))
      then tunnel
      else tunnel\<lparr>tun_Meta := (tun_Meta tunnel)
             \<lparr>OwnerReferences :=
                sort_key ref_UID (OwnerReferences (tun_Meta tunnel) @ [ingressOwnerReference ingress])\<rparr>\<rparr>)"

text \<open>The body of the innermost loop of \<open>calculateTunnelsFromIngress\<close>, for one path.\<close>

definition tunnels_path ::
  "Driver \<Rightarrow> Lib \<Rightarrow> Ingress \<Rightarrow> HTTPIngressPath \<Rightarrow> (tunnelKey \<times> Tunnel) list \<Rightarrow> (tunnelKey \<times> Tunnel) list" where
  "tunnels_path d lib ingress path tunnels =
     (case pth_Service path of
        None \<Rightarrow> tunnels
      | Some backendSvc \<Rightarrow>
          (let key = ingressTunnelKey d lib ingress backendSvc;
               tunnel = (case map_of tunnels key of
                           Some t \<Rightarrow> t
                         | None \<Rightarrow> newIngressTunnel d lib ingress backendSvc)
           in AList.update key (addIngressReference ingress tunnel) tunnels))"

fun tunnels_paths ::
  "Driver \<Rightarrow> Lib \<Rightarrow> Ingress \<Rightarrow> HTTPIngressPath list \<Rightarrow> (tunnelKey \<times> Tunnel) list \<Rightarrow> (tunnelKey \<times> Tunnel) list" where
  "tunnels_paths d lib ingress [] tunnels = tunnels"
| "tunnels_paths d lib ingress (path # rest) tunnels =
     tunnels_paths d lib ingress rest (tunnels_path d lib ingress path tunnels)"

text \<open>The loop over the rules: \<open>rule.HTTP.Paths\<close> panics when \<open>rule.HTTP\<close> is nil.\<close>

fun tunnels_rules ::
  "Driver \<Rightarrow> Lib \<Rightarrow> Ingress \<Rightarrow> IngressRule list \<Rightarrow> (tunnelKey \<times> Tunnel) list \<Rightarrow>
   fault + (tunnelKey \<times> Tunnel) list" where
  "tunnels_rules d lib ingress [] tunnels = Inr tunnels"
| "tunnels_rules d lib ingress (rule # rest) tunnels =
     (case rule_HTTP rule of
        None \<Rightarrow> Inl Panic
      | Some paths \<Rightarrow> tunnels_rules d lib ingress rest (tunnels_paths d lib ingress paths tunnels))"

fun tunnels_ingresses ::
  "Driver \<Rightarrow> Lib \<Rightarrow> Ingress list \<Rightarrow> (tunnelKey \<times> Tunnel) list \<Rightarrow> fault + (tunnelKey \<times> Tunnel) list" where
  "tunnels_ingresses d lib [] tunnels = Inr tunnels"
| "tunnels_ingresses d lib (ingress # rest) tunnels =
     (case tunnels_rules d lib ingress (ing_Rules ingress) tunnels of
        Inl f \<Rightarrow> Inl f
      | Inr tunnels' \<Rightarrow> tunnels_ingresses d lib rest tunnels')"

definition calculateTunnelsFromIngress ::
  "Driver \<Rightarrow> Lib \<Rightarrow> (tunnelKey \<times> Tunnel) list \<Rightarrow> fault + (tunnelKey \<times> Tunnel) list" where
  "calculateTunnelsFromIngress d lib tunnels =
     tunnels_ingresses d lib (ListNgrokIngressesV1 (store d)) tunnels"

text \<open>
  The service backends of the paths of an ingress, in the order of the loops, and what
  each contributes to the tunnel map: the identity key, the tunnel made if the key is
  new, and the owner reference of the ingress.
\<close>

definition ingress_backends :: "Ingress \<Rightarrow> IngressServiceBackend list" where
  "ingress_backends ingress =
     concat (map (\<lambda>rule. case rule_HTTP rule of
                            None \<Rightarrow> []
                          | Some paths \<Rightarrow> List.map_filter pth_Service paths)
               (ing_Rules ingress))"

definition ingress_contributions ::
  "Driver \<Rightarrow> Lib \<Rightarrow> Ingress \<Rightarrow> (tunnelKey \<times> Tunnel \<times> OwnerReference) list" where
  "ingress_contributions d lib ingress =
     map (\<lambda>backendSvc. (ingressTunnelKey d lib ingress backendSvc,
                         newIngressTunnel d lib ingress backendSvc,
                         ingressOwnerReference ingress))
       (ingress_backends ingress)"

definition tunnel_contributions :: "Driver \<Rightarrow> Lib \<Rightarrow> (tunnelKey \<times> Tunnel \<times> OwnerReference) list" where
  "tunnel_contributions d lib =
     concat (map (ingress_contributions d lib) (ListNgrokIngressesV1 (store d)))"

text \<open>The UIDs of the ingresses that have a path for a key.\<close>

definition owner_uids :: "Driver \<Rightarrow> Lib \<Rightarrow> tunnelKey \<Rightarrow> string set" where
  "owner_uids d lib k =
     set (map (\<lambda>c. ref_UID (snd (snd c))) (filter (\<lambda>c. fst c = k) (tunnel_contributions d lib)))"

text \<open>
  Contributions are consistent when a UID stands for one owner reference and a key for
  one new tunnel: the owners have different UIDs, and the paths of one key resolve to the
  same backend data.
\<close>

definition consistent_contributions :: "(tunnelKey \<times> Tunnel \<times> OwnerReference) list \<Rightarrow> bool" where
  "consistent_contributions cs \<longleftrightarrow>
     (\<forall>c1 \<in> set cs. \<forall>c2 \<in> set cs.
        (ref_UID (snd (snd c1)) = ref_UID (snd (snd c2)) \<longrightarrow> snd (snd c1) = snd (snd c2)) \<and>
        (fst c1 = fst c2 \<longrightarrow> fst (snd c1) = fst (snd c2)))"

text \<open>No rule of a tracked ingress has a nil \<open>HTTP\<close>.\<close>

definition rules_have_http :: "Driver \<Rightarrow> bool" where
  "rules_have_http d \<longleftrightarrow>
     (\<forall>ingress \<in> set (ListNgrokIngressesV1 (store d)).
        \<forall>rule \<in> set (ing_Rules ingress). rule_HTTP rule \<noteq> None)"

text \<open>
  The loop body of the tunnel calculator, on a contribution: the owner references with one
  more owner, a tunnel with other owner references, and the tunnel map after one
  contribution. These restate \<open>addIngressReference\<close> and \<open>tunnels_path\<close> and serve
  the proofs.
\<close>

definition addRef :: "OwnerReference \<Rightarrow> OwnerReference list \<Rightarrow> OwnerReference list" where
  "addRef ref refs =
     (if list_ex (\<lambda>r. ref_UID r = ref_UID ref) refs then refs
      else sort_key ref_UID (refs @ [ref]))"

definition withOwners :: "Tunnel \<Rightarrow> OwnerReference list \<Rightarrow> Tunnel" where
  "withOwners t refs = t\<lparr>tun_Meta := (tun_Meta t)\<lparr>OwnerReferences := refs\<rparr>\<rparr>"

definition contribute ::
  "tunnelKey \<times> Tunnel \<times> OwnerReference \<Rightarrow> (tunnelKey \<times> Tunnel) list \<Rightarrow> (tunnelKey \<times> Tunnel) list" where
  "contribute c tunnels =
     (case c of (key, new, ref) \<Rightarrow>
        (let tunnel = (case map_of tunnels key of Some t \<Rightarrow> t | None \<Rightarrow> new)
         in AList.update key (withOwners tunnel (addRef ref (OwnerReferences (tun_Meta tunnel)))) tunnels))"

definition triple ::
  "Driver \<Rightarrow> Lib \<Rightarrow> Ingress \<Rightarrow> IngressServiceBackend \<Rightarrow> tunnelKey \<times> Tunnel \<times> OwnerReference" where
  "triple d lib ingress backendSvc =
     (ingressTunnelKey d lib ingress backendSvc, newIngressTunnel d lib ingress backendSvc,
      ingressOwnerReference ingress)"

text \<open>
  The owner references contributed to a key, in order, and the tunnel that the
  contributions to a key start from: the one in the map, or else the new tunnel of the
  first contribution.
\<close>

definition key_refs ::
  "tunnelKey \<Rightarrow> (tunnelKey \<times> Tunnel \<times> OwnerReference) list \<Rightarrow> OwnerReference list" where
  "key_refs k cs = map (\<lambda>c. snd (snd c)) (filter (\<lambda>c. fst c = k) cs)"

definition base_tunnel ::
  "tunnelKey \<Rightarrow> (tunnelKey \<times> Tunnel \<times> OwnerReference) list \<Rightarrow> Tunnel option \<Rightarrow> Tunnel option" where
  "base_tunnel k cs old =
     (case old of
        Some t \<Rightarrow> Some t
      | None \<Rightarrow> map_option (\<lambda>c. fst (snd c)) (find (\<lambda>c. fst c = k) cs))"

section \<open>Edge calculator\<close>

datatype logmsg =
    LogModuleSetError error
  | LogPolicyError error
  | LogNoEdgeForRule string
  | LogUnknownPathType string
  | LogNoPortForService error
  | LogReplacingExistingRoute string string

definition Modules0 :: Modules where
  "Modules0 = \<lparr>mod_Compression = None, mod_Headers = None, mod_IPRestriction = None,
     mod_TLSTermination = None, mod_MutualTLS = None, mod_WebhookVerification = None,
     mod_CircuitBreaker = None, mod_OAuth = None, mod_OIDC = None, mod_SAML = None,
     mod_Policy = None\<rparr>"

text \<open>The loop of \<open>getNgrokModuleSetForIngress\<close> over the module-set names, and the function.\<close>

fun mergeModuleSets :: "Driver \<Rightarrow> Lib \<Rightarrow> Ingress \<Rightarrow> string list \<Rightarrow> Modules \<Rightarrow> error + Modules" where
  "mergeModuleSets d lib ing [] computedModSet = Inr computedModSet"
| "mergeModuleSets d lib ing (module # rest) computedModSet =
     (case GetNgrokModuleSetV1 (store d) module (Namespace (ing_Meta ing)) of
        Inl err \<Rightarrow> Inl err
      | Inr resolvedMod \<Rightarrow> mergeModuleSets d lib ing rest (Merge lib computedModSet resolvedMod))"

definition getNgrokModuleSetForIngress :: "Driver \<Rightarrow> Lib \<Rightarrow> Ingress \<Rightarrow> error + Modules" where
  "getNgrokModuleSetForIngress d lib ing =
     (case ExtractNgrokModuleSetsFromAnnotations lib ing of
        Inl err \<Rightarrow> if IsMissingAnnotations lib err then Inr Modules0 else Inl err
      | Inr modules \<Rightarrow> mergeModuleSets d lib ing modules Modules0)"

definition getNgrokTrafficPolicyForIngress ::
  "Driver \<Rightarrow> Lib \<Rightarrow> Ingress \<Rightarrow> error + string option option" where
  "getNgrokTrafficPolicyForIngress d lib ing =
     (case ExtractNgrokTrafficPolicyFromAnnotations lib ing of
        Inl err \<Rightarrow> if IsMissingAnnotations lib err then Inr None else Inl err
      | Inr policy \<Rightarrow> GetNgrokTrafficPolicyV1 (store d) policy (Namespace (ing_Meta ing)))"

text \<open>
  \<open>getTrafficPolicyJSON\<close>. Its test \<open>modSet == nil\<close> comes after \<open>modSet\<close> has been
  dereferenced and is never true; the module set is a value here.
\<close>

definition getTrafficPolicyJSON ::
  "Driver \<Rightarrow> Lib \<Rightarrow> Ingress \<Rightarrow> Modules \<Rightarrow> error + string option" where
  "getTrafficPolicyJSON d lib ingress modSet =
     (case getNgrokTrafficPolicyForIngress d lib ingress of
        Inl err \<Rightarrow> Inl err
      | Inr trafficPolicy \<Rightarrow>
          if mod_Policy modSet \<noteq> None \<and> trafficPolicy \<noteq> None
          then Inl (BothPolicies (Name (ing_Meta ingress)))
          else (case trafficPolicy of
                  Some policy \<Rightarrow> Inr policy
                | None \<Rightarrow>
                    (case Marshal lib (mod_Policy modSet) of
                       Inl err \<Rightarrow> Inl err
                     | Inr policyJSON \<Rightarrow> Inr (Some policyJSON))))"

text \<open>
  The \<open>switch\<close> on the path type: \<open>Inr\<close> the match type, or \<open>Inl\<close> the path type that
  the default branch logs before it skips the path.
\<close>

definition matchTypeOf :: "string option \<Rightarrow> string + string" where
  "matchTypeOf pathType =
     (case pathType of
        None \<Rightarrow> Inr ''path_prefix''
      | Some t \<Rightarrow>
          if t = ''Prefix'' then Inr ''path_prefix''
          else if t = ''Exact'' then Inr ''exact_path''
          else if t = ''ImplementationSpecific'' then Inr ''path_prefix''
          else Inl t)"

definition ingressRoute ::
  "Driver \<Rightarrow> Ingress \<Rightarrow> Modules \<Rightarrow> string option \<Rightarrow> HTTPIngressPath \<Rightarrow> string \<Rightarrow> string \<Rightarrow>
   string \<Rightarrow> int \<Rightarrow> HTTPSEdgeRouteSpec" where
  "ingressRoute d ingress modSet policyJSON httpIngressPath matchType serviceName serviceUID servicePort =
     \<lparr>rt_Metadata = ingressNgrokMetadata d,
      rt_Match = pth_Path httpIngressPath,
      rt_MatchType = matchType,
      rt_Backend_Labels =
        Some (ngrokLabels (Namespace (ing_Meta ingress)) serviceUID serviceName servicePort),
      rt_CircuitBreaker = mod_CircuitBreaker modSet,
      rt_Compression = mod_Compression modSet,
      rt_IPRestriction = mod_IPRestriction modSet,
      rt_Headers = mod_Headers modSet,
      rt_OAuth = mod_OAuth modSet,
      rt_Policy = policyJSON,
      rt_OIDC = mod_OIDC modSet,
      rt_SAML = mod_SAML modSet,
      rt_WebhookVerification = mod_WebhookVerification modSet,
      rt_Other = []\<rparr>"

text \<open>
  The loop over the existing routes of the edge that looks for the match and match type
  of the new route: it logs each one it finds, and its \<open>continue\<close> goes to the next
  existing route. These are the messages it logs.
\<close>

definition replacingLogs :: "HTTPSEdgeRouteSpec list \<Rightarrow> HTTPSEdgeRouteSpec \<Rightarrow> logmsg list" where
  "replacingLogs routes route =
     map (\<lambda>existingRoute. LogReplacingExistingRoute (rt_Match existingRoute) (rt_Match route))
       (filter (\<lambda>existingRoute. rt_Match existingRoute = rt_Match route \<and>
                                 rt_MatchType existingRoute = rt_MatchType route) routes)"

text \<open>
  The body of the loop of \<open>calculateHTTPSEdgesFromIngress\<close> over the paths of a rule: the
  edge being built and the log, before and after one path. What \<open>append\<close> returns is
  not nil. An edge is a value here: the edges of the map that \<open>calculateHTTPSEdges\<close>
  passes in have nil routes, so that no two edges share the array of their routes, and
  \<open>append\<close> changes the routes of the one edge.
\<close>

definition edges_path ::
  "Driver \<Rightarrow> Ingress \<Rightarrow> Modules \<Rightarrow> string option \<Rightarrow> HTTPIngressPath \<Rightarrow> HTTPSEdge \<times> logmsg list \<Rightarrow>
   HTTPSEdge \<times> logmsg list" where
  "edges_path d ingress modSet policyJSON httpIngressPath el =
     (case el of (edge, lg) \<Rightarrow>
        (case matchTypeOf (pth_PathType httpIngressPath) of
           Inl t \<Rightarrow> (edge, lg @ [LogUnknownPathType t])
         | Inr matchType \<Rightarrow>
             (case pth_Service httpIngressPath of
                None \<Rightarrow> (edge, lg)
              | Some backendSvc \<Rightarrow>
                  (case getEdgeBackend d backendSvc (Namespace (ing_Meta ingress)) of
                     Inl err \<Rightarrow> (edge, lg @ [LogNoPortForService err])
                   | Inr (serviceUID, servicePort) \<Rightarrow>
                       (let route = ingressRoute d ingress modSet policyJSON httpIngressPath matchType
                                      (isb_Name backendSvc) serviceUID servicePort
                        in (edge\<lparr>edge_Spec := (edge_Spec edge)
                                   \<lparr>es_Routes := Some (elems (es_Routes (edge_Spec edge)) @ [route])\<rparr>\<rparr>,
                            lg @ replacingLogs (elems (es_Routes (edge_Spec edge))) route))))))"

fun edges_paths ::
  "Driver \<Rightarrow> Ingress \<Rightarrow> Modules \<Rightarrow> string option \<Rightarrow> HTTPIngressPath list \<Rightarrow>
   HTTPSEdge \<times> logmsg list \<Rightarrow> HTTPSEdge \<times> logmsg list" where
  "edges_paths d ingress modSet policyJSON [] el = el"
| "edges_paths d ingress modSet policyJSON (httpIngressPath # rest) el =
     edges_paths d ingress modSet policyJSON rest (edges_path d ingress modSet policyJSON httpIngressPath el)"

text \<open>The TLS settings a rule copies from the module set into its edge.\<close>

definition edgeTLS :: "Modules \<Rightarrow> HTTPSEdge \<Rightarrow> HTTPSEdge" where
  "edgeTLS modSet edge =
     (let edge1 = (case mod_TLSTermination modSet of
                     Some (Some minVersion) \<Rightarrow>
                       edge\<lparr>edge_Spec := (edge_Spec edge)\<lparr>es_TLSTermination := Some minVersion\<rparr>\<rparr>
                   | _ \<Rightarrow> edge)
      in (if mod_MutualTLS modSet \<noteq> None
          then edge1\<lparr>edge_Spec := (edge_Spec edge1)\<lparr>es_MutualTLS := mod_MutualTLS modSet\<rparr>\<rparr>
          else edge1))"

text \<open>The loop over the rules of one ingress: \<open>rule.HTTP.Paths\<close> panics when \<open>rule.HTTP\<close> is nil.\<close>

fun edges_rules ::
  "Driver \<Rightarrow> Ingress \<Rightarrow> Modules \<Rightarrow> string option \<Rightarrow> IngressRule list \<Rightarrow>
   (string \<times> HTTPSEdge) list \<times> logmsg list \<Rightarrow> fault + (string \<times> HTTPSEdge) list \<times> logmsg list" where
  "edges_rules d ingress modSet policyJSON [] ml = Inr ml"
| "edges_rules d ingress modSet policyJSON (rule # rest) ml =
     (case ml of (edgeMap, lg) \<Rightarrow>
        (case map_of edgeMap (rule_Host rule) of
           None \<Rightarrow> edges_rules d ingress modSet policyJSON rest
                     (edgeMap, lg @ [LogNoEdgeForRule (rule_Host rule)])
         | Some edge \<Rightarrow>
             (case rule_HTTP rule of
                None \<Rightarrow> Inl Panic
              | Some paths \<Rightarrow>
                  (case edges_paths d ingress modSet policyJSON paths (edgeTLS modSet edge, lg) of
                     (edge', lg') \<Rightarrow>
                       edges_rules d ingress modSet policyJSON rest
                         (AList.update (rule_Host rule) edge' edgeMap, lg')))))"

fun edges_ingresses ::
  "Driver \<Rightarrow> Lib \<Rightarrow> Ingress list \<Rightarrow> (string \<times> HTTPSEdge) list \<times> logmsg list \<Rightarrow>
   fault + (string \<times> HTTPSEdge) list \<times> logmsg list" where
  "edges_ingresses d lib [] ml = Inr ml"
| "edges_ingresses d lib (ingress # rest) ml =
     (case ml of (edgeMap, lg) \<Rightarrow>
        (case getNgrokModuleSetForIngress d lib ingress of
           Inl err \<Rightarrow> edges_ingresses d lib rest (edgeMap, lg @ [LogModuleSetError err])
         | Inr modSet \<Rightarrow>
             (case getTrafficPolicyJSON d lib ingress modSet of
                Inl err \<Rightarrow> edges_ingresses d lib rest (edgeMap, lg @ [LogPolicyError err])
              | Inr policyJSON \<Rightarrow>
                  (case edges_rules d ingress modSet policyJSON (ing_Rules ingress) (edgeMap, lg) of
                     Inl f \<Rightarrow> Inl f
                   | Inr ml' \<Rightarrow> edges_ingresses d lib rest ml'))))"

text \<open>\<open>calculateHTTPSEdgesFromIngress\<close>: the edge map as the function leaves it, and what it logged.\<close>

definition calculateHTTPSEdgesFromIngress ::
  "Driver \<Rightarrow> Lib \<Rightarrow> (string \<times> HTTPSEdge) list \<Rightarrow> fault + (string \<times> HTTPSEdge) list \<times> logmsg list" where
  "calculateHTTPSEdgesFromIngress d lib edgeMap =
     edges_ingresses d lib (ListNgrokIngressesV1 (store d)) (edgeMap, [])"

text \<open>
  The scaffold edge of an ingress domain, whose \<open>Routes\<close> are not set and so nil, and the
  first loop of \<open>calculateHTTPSEdges\<close>.
\<close>

definition scaffoldEdge :: "Driver \<Rightarrow> Domain \<Rightarrow> HTTPSEdge" where
  "scaffoldEdge d domain =
     \<lparr>edge_Meta = ObjectMeta0\<lparr>GenerateName := Name (dom_Meta domain) @ ''-'',
                              Namespace := Namespace (dom_Meta domain),
                              Labels := edgeLabels d\<rparr>,
      edge_Spec = \<lparr>es_Metadata = ingressNgrokMetadata d,
                   es_Hostports = Some [ds_Domain (dom_Spec domain) @ '':443''],
                   es_Routes = None, es_TLSTermination = None, es_MutualTLS = None,
                   es_Other = []\<rparr>\<rparr>"

fun scaffoldEdges :: "Driver \<Rightarrow> Domain list \<Rightarrow> (string \<times> HTTPSEdge) list \<Rightarrow> (string \<times> HTTPSEdge) list" where
  "scaffoldEdges d [] edgeMap = edgeMap"
| "scaffoldEdges d (domain # rest) edgeMap =
     scaffoldEdges d rest (AList.update (ds_Domain (dom_Spec domain)) (scaffoldEdge d domain) edgeMap)"

text \<open>The last loop of \<open>calculateHTTPSEdges\<close>, which merges the gateway edges into the edge map.\<close>

fun mergeEdgeMaps :: "(string \<times> HTTPSEdge) list \<Rightarrow> (string \<times> HTTPSEdge) list \<Rightarrow> (string \<times> HTTPSEdge) list" where
  "mergeEdgeMaps [] edgeMap = edgeMap"
| "mergeEdgeMaps ((k, v) # rest) edgeMap = mergeEdgeMaps rest (AList.update k v edgeMap)"

definition calculateHTTPSEdges ::
  "Driver \<Rightarrow> Lib \<Rightarrow> Domain list \<Rightarrow> (string \<times> Domain) list \<Rightarrow> fault + (string \<times> HTTPSEdge) list" where
  "calculateHTTPSEdges d lib ingressDomains gatewayDomainMap =
     (case calculateHTTPSEdgesFromIngress d lib (scaffoldEdges d ingressDomains []) of
        Inl f \<Rightarrow> Inl f
      | Inr (edgeMap, lg) \<Rightarrow>
          if gatewayEnabled d
          then (case gatewayEdgeMap d gatewayDomainMap of
                  Inl f \<Rightarrow> Inl f
                | Inr gwEdges \<Rightarrow> Inr (mergeEdgeMaps gwEdges edgeMap))
          else Inr edgeMap)"

text \<open>The route that a path of an ingress yields, if it yields one.\<close>

definition pathRoute ::
  "Driver \<Rightarrow> Ingress \<Rightarrow> Modules \<Rightarrow> string option \<Rightarrow> HTTPIngressPath \<Rightarrow>
   HTTPSEdgeRouteSpec option" where
  "pathRoute d ingress modSet policyJSON httpIngressPath =
     (case matchTypeOf (pth_PathType httpIngressPath) of
        Inl t \<Rightarrow> None
      | Inr matchType \<Rightarrow>
          (case pth_Service httpIngressPath of
             None \<Rightarrow> None
           | Some backendSvc \<Rightarrow>
               (case getEdgeBackend d backendSvc (Namespace (ing_Meta ingress)) of
                  Inl err \<Rightarrow> None
                | Inr (serviceUID, servicePort) \<Rightarrow>
                    Some (ingressRoute d ingress modSet policyJSON httpIngressPath matchType
                            (isb_Name backendSvc) serviceUID servicePort))))"

definition same_match :: "HTTPSEdgeRouteSpec \<Rightarrow> HTTPSEdgeRouteSpec \<Rightarrow> bool" where
  "same_match r r' \<longleftrightarrow> rt_Match r = rt_Match r' \<and> rt_MatchType r = rt_MatchType r'"

text \<open>
  The routes of an edge, and the routes that a pass of the calculator yields for a host:
  those of the paths of the rules with that host, of the ingresses whose module set and
  policy resolve, in the order of the ingresses, of their rules and of their paths.
\<close>

definition edgeRoutes :: "HTTPSEdge \<Rightarrow> HTTPSEdgeRouteSpec list" where
  "edgeRoutes e = elems (es_Routes (edge_Spec e))"

definition rule_routes ::
  "Driver \<Rightarrow> Ingress \<Rightarrow> Modules \<Rightarrow> string option \<Rightarrow> string \<Rightarrow> IngressRule \<Rightarrow>
   HTTPSEdgeRouteSpec list" where
  "rule_routes d ingress modSet policyJSON host rule =
     (if rule_Host rule = host
      then List.map_filter (pathRoute d ingress modSet policyJSON) (elems (rule_HTTP rule))
      else [])"

definition ingress_routes :: "Driver \<Rightarrow> Lib \<Rightarrow> string \<Rightarrow> Ingress \<Rightarrow> HTTPSEdgeRouteSpec list" where
  "ingress_routes d lib host ingress =
     (case getNgrokModuleSetForIngress d lib ingress of
        Inl err \<Rightarrow> []
      | Inr modSet \<Rightarrow>
          (case getTrafficPolicyJSON d lib ingress modSet of
             Inl err \<Rightarrow> []
           | Inr policyJSON \<Rightarrow>
               concat (map (rule_routes d ingress modSet policyJSON host) (ing_Rules ingress))))"

definition pass_routes :: "Driver \<Rightarrow> Lib \<Rightarrow> string \<Rightarrow> HTTPSEdgeRouteSpec list" where
  "pass_routes d lib host = concat (map (ingress_routes d lib host) (ListNgrokIngressesV1 (store d)))"

text \<open>
  \<open>logged_duplicates before added lg\<close>: for each route of \<open>added\<close> and each route that
  stands before it in \<open>before @ added\<close> with the same match and match type, the log has
  the message that the earlier route is being replaced by the later one.
\<close>

fun logged_duplicates ::
  "HTTPSEdgeRouteSpec list \<Rightarrow> HTTPSEdgeRouteSpec list \<Rightarrow> logmsg list \<Rightarrow> bool" where
  "logged_duplicates before [] lg = True"
| "logged_duplicates before (r # added) lg =
     (list_all (\<lambda>r'. same_match r' r \<longrightarrow>
                       LogReplacingExistingRoute (rt_Match r') (rt_Match r) \<in> set lg) before \<and>
      logged_duplicates (before @ [r]) added lg)"

section \<open>Applying edges\<close>

text \<open>
  The first loop of \<open>applyHTTPSEdges\<close>, over the current edges. The result is the error
  that makes \<open>applyHTTPSEdges\<close> return, the desired edges that are left, and the world.
  The test \<open>reflect.DeepEqual(desiredEdge.Spec, currEdge.Spec)\<close> is the equality of the
  two specs, in which \<open>None\<close> (nil) and \<open>Some []\<close> (empty) differ.
\<close>

fun applyHTTPSEdges_current ::
  "'c Client \<Rightarrow> (string \<times> HTTPSEdge) list \<Rightarrow> HTTPSEdge list \<Rightarrow> 'c world \<Rightarrow>
   error option \<times> (string \<times> HTTPSEdge) list \<times> 'c world" where
  "applyHTTPSEdges_current cl desiredEdges [] w = (None, desiredEdges, w)"
| "applyHTTPSEdges_current cl desiredEdges (currEdge # rest) w =
     (let hostports = es_Hostports (edge_Spec currEdge)
      in if length (elems hostports) \<noteq> 1 then applyHTTPSEdges_current cl desiredEdges rest w
         else (let domain = TrimSuffix (elems hostports ! 0) '':443''
               in (case map_of desiredEdges domain of
                     Some desiredEdge \<Rightarrow>
                       (if edge_Spec desiredEdge \<noteq> edge_Spec currEdge
                        then (case Update cl (EdgeObj (currEdge\<lparr>edge_Spec := edge_Spec desiredEdge\<rparr>)) w of
                                (Some err, w') \<Rightarrow> (Some err, desiredEdges, w')
                              | (None, w') \<Rightarrow>
                                  applyHTTPSEdges_current cl (AList.delete domain desiredEdges) rest w')
                        else applyHTTPSEdges_current cl (AList.delete domain desiredEdges) rest w)
                   | None \<Rightarrow>
                       (case Delete cl (EdgeObj currEdge) w of
                          (err, w') \<Rightarrow>
                            if IgnoreNotFound err \<noteq> None then (err, desiredEdges, w')
                            else applyHTTPSEdges_current cl desiredEdges rest w'))))"

text \<open>The second loop, which creates the desired edges that are left.\<close>

fun applyHTTPSEdges_create ::
  "'c Client \<Rightarrow> (string \<times> HTTPSEdge) list \<Rightarrow> 'c world \<Rightarrow> error option \<times> 'c world" where
  "applyHTTPSEdges_create cl [] w = (None, w)"
| "applyHTTPSEdges_create cl ((k, edge) # rest) w =
     (case Create cl (EdgeObj edge) w of
        (Some err, w') \<Rightarrow> (Some err, w')
      | (None, w') \<Rightarrow> applyHTTPSEdges_create cl rest w')"

definition applyHTTPSEdges ::
  "'c Client \<Rightarrow> (string \<times> HTTPSEdge) list \<Rightarrow> HTTPSEdge list \<Rightarrow> 'c world \<Rightarrow> error option \<times> 'c world" where
  "applyHTTPSEdges cl desiredEdges currentEdges w =
     (case applyHTTPSEdges_current cl desiredEdges currentEdges w of
        (Some err, desiredEdges', w') \<Rightarrow> (Some err, w')
      | (None, desiredEdges', w') \<Rightarrow> applyHTTPSEdges_create cl desiredEdges' w')"

text \<open>An edge that the diff can manage has exactly one hostport.\<close>

definition manageable :: "HTTPSEdge \<Rightarrow> bool" where
  "manageable e \<longleftrightarrow> length (elems (es_Hostports (edge_Spec e))) = 1"

text \<open>
  The calls that edge reconciliation issues when no call fails, in order. A current
  edge that is not manageable gets none. A manageable one is matched, by its hostport
  without \<open>:443\<close>, with the desired edges that no earlier current edge has matched: it is
  updated if the specs differ (as \<open>reflect.DeepEqual\<close> sees them), and deleted if there is
  no such desired edge. The desired edges that are left are created.
\<close>

fun edge_calls :: "(string \<times> HTTPSEdge) list \<Rightarrow> HTTPSEdge list \<Rightarrow> call list" where
  "edge_calls desiredEdges [] = map (\<lambda>(k, edge). CallCreate (EdgeObj edge)) desiredEdges"
| "edge_calls desiredEdges (e # rest) =
     (case elems (es_Hostports (edge_Spec e)) of
        [hostport] \<Rightarrow>
          (case map_of desiredEdges (TrimSuffix hostport '':443'') of
             Some desiredEdge \<Rightarrow>
               (if edge_Spec desiredEdge \<noteq> edge_Spec e
                then [CallUpdate (EdgeObj (e\<lparr>edge_Spec := edge_Spec desiredEdge\<rparr>))]
                else []) @
               edge_calls (AList.delete (TrimSuffix hostport '':443'') desiredEdges) rest
           | None \<Rightarrow> CallDelete (EdgeObj e) # edge_calls desiredEdges rest)
      | _ \<Rightarrow> edge_calls desiredEdges rest)"

text \<open>
  What a call of edge reconciliation may be: the creation of a desired edge, the
  deletion of a manageable current edge, or the update of a manageable current edge to
  the spec, a different one, of the desired edge of its domain.
\<close>

definition edge_call_ok :: "(string \<times> HTTPSEdge) list \<Rightarrow> HTTPSEdge list \<Rightarrow> call \<Rightarrow> bool" where
  "edge_call_ok desiredEdges currentEdges c \<longleftrightarrow>
     (\<exists>kv \<in> set desiredEdges. c = CallCreate (EdgeObj (snd kv))) \<or>
     (\<exists>e \<in> set currentEdges. manageable e \<and>
        (c = CallDelete (EdgeObj e) \<or>
         (\<exists>desiredEdge.
            map_of desiredEdges (TrimSuffix (hd (elems (es_Hostports (edge_Spec e)))) '':443'') =
              Some desiredEdge \<and>
            edge_Spec desiredEdge \<noteq> edge_Spec e \<and>
            c = CallUpdate (EdgeObj (e\<lparr>edge_Spec := edge_Spec desiredEdge\<rparr>)))))"

section \<open>Partial sync\<close>

text \<open>
  How a call of \<open>SyncEdges\<close> ends: it returns an error value, or it is suspended in
  \<open>wait(ctx)\<close> on the channel it was queued on (it returns what it receives there, or the
  error of its context), or it does not return.
\<close>

datatype sync_result = Returned "error option" | Suspended nat | Faulted fault

text \<open>What \<open>SyncEdges\<close> does once it may proceed.\<close>

definition SyncEdges_body ::
  "Driver \<Rightarrow> Lib \<Rightarrow> 'c Client \<Rightarrow> 'c world \<Rightarrow> sync_result \<times> 'c world" where
  "SyncEdges_body d lib cl w =
     (case calculateDomains d lib of
        (domains, desiredIngressDomains, desiredGatewayDomainMap) \<Rightarrow>
          (case calculateHTTPSEdges d lib desiredIngressDomains desiredGatewayDomainMap of
             Inl f \<Rightarrow> (Faulted f, w)
           | Inr desiredEdges \<Rightarrow>
               (case ListEdges cl (edgeLabels d) w of
                  (Inl err, w1) \<Rightarrow> (Returned (Some err), w1)
                | (Inr currEdges, w1) \<Rightarrow>
                    (case applyHTTPSEdges cl desiredEdges currEdges w1 of
                       (Some err, w2) \<Rightarrow> (Returned (Some err), w2)
                     | (None, w2) \<Rightarrow> (Returned None, w2)))))"

text \<open>
  \<open>SyncEdges\<close>, on the debouncer state and the world. The deferred \<open>syncDone\<close> runs when
  the body has returned or panicked.
\<close>

definition SyncEdges ::
  "Driver \<Rightarrow> Lib \<Rightarrow> 'c Client \<Rightarrow> driver_sync \<Rightarrow> 'c world \<Rightarrow> sync_result \<times> driver_sync \<times> 'c world" where
  "SyncEdges d lib cl ds w =
     (if \<not> syncAllowConcurrent d
      then (case syncStart True ds of
              Inl f \<Rightarrow> (Faulted f, ds, w)
            | Inr (proceed, wait, ds1) \<Rightarrow>
                if proceed
                then (case SyncEdges_body d lib cl w of
                        (r, w1) \<Rightarrow>
                          (case syncDone ds1 of
                             Inl f \<Rightarrow> (Faulted f, ds1, w1)
                           | Inr ds2 \<Rightarrow> (r, ds2, w1)))
                else (case wait of
                        WaitOn ch \<Rightarrow> (Suspended ch, ds1, w)
                      | _ \<Rightarrow> (Returned None, ds1, w)))
      else (case SyncEdges_body d lib cl w of (r, w1) \<Rightarrow> (r, ds, w1)))"

text \<open>The calls \<open>SyncEdges\<close> may issue: the listing of edges, and calls on edges.\<close>

definition edge_call :: "call \<Rightarrow> bool" where
  "edge_call c =
     (case c of
        CallList k sel \<Rightarrow> k = HTTPSEdgeList
      | CallCreate x \<Rightarrow> (case x of EdgeObj e \<Rightarrow> True | _ \<Rightarrow> False)
      | CallUpdate x \<Rightarrow> (case x of EdgeObj e \<Rightarrow> True | _ \<Rightarrow> False)
      | CallDelete x \<Rightarrow> (case x of EdgeObj e \<Rightarrow> True | _ \<Rightarrow> False)
      | CallStatusUpdate i \<Rightarrow> False)"

section \<open>Example objects\<close>

text \<open>A client whose calls all succeed and that lists the given edges, and the world before any call.\<close>

definition ok_client :: "HTTPSEdge list \<Rightarrow> unit Client" where
  "ok_client edges =
     \<lparr>cl_Create = (\<lambda>x s. (None, s)), cl_Update = (\<lambda>x s. (None, s)),
      cl_Delete = (\<lambda>x s. (None, s)), cl_ListEdges = (\<lambda>sel s. (Inr edges, s))\<rparr>"

definition w0 :: "unit world" where
  "w0 = \<lparr>cstate = (), trace = []\<rparr>"

definition ex_domain :: "string \<Rightarrow> string \<Rightarrow> string \<Rightarrow> string \<Rightarrow> Domain" where
  "ex_domain name namespace host metadata =
     \<lparr>dom_Meta = ObjectMeta0\<lparr>Name := name, Namespace := namespace\<rparr>,
      dom_Spec = \<lparr>ds_Domain = host, ds_Metadata = metadata\<rparr>,
      dom_Status = DomainStatus0\<rparr>"

text \<open>A service with the given app-protocols annotation, and a parser that knows one annotation.\<close>

definition ex_service :: "string option \<Rightarrow> ServicePort list \<Rightarrow> Service" where
  "ex_service annotation ports =
     \<lparr>svc_Meta = ObjectMeta0
        \<lparr>Name := ''svc'', Namespace := ''ns'', UID := ''svc-uid'',
         Annotations := (case annotation of
                           None \<Rightarrow> None
                         | Some a \<Rightarrow> Some [''k8s.ngrok.com/app-protocols'' \<mapsto> a])\<rparr>,
      svc_Ports = ports\<rparr>"

definition ex_Unmarshal :: "string \<Rightarrow> (string \<rightharpoonup> string) option" where
  \<open>ex_Unmarshal s =
     (if s = ''{"https":"hTtPs","tcp":"tcp"}'' then Some [''https'' \<mapsto> ''hTtPs'', ''tcp'' \<mapsto> ''tcp'']
      else None)\<close>

text \<open>
  An upper-casing that knows, besides the ASCII letters, the long s: the bytes \<open>0xC5\<close>
  \<open>0xBF\<close>, which are U+017F in UTF-8, become \<open>S\<close>, as with \<open>strings.ToUpper\<close>. And a
  parser for which the port \<open>https\<close> has the value \<open>http\<close> followed by a long s.
\<close>

fun ex_ToUpper :: "string \<Rightarrow> string" where
  "ex_ToUpper [] = []"
| "ex_ToUpper [c] = [ToUpper_ascii_char c]"
| "ex_ToUpper (c # c' # s) =
     (if c = CHR 0xC5 \<and> c' = CHR 0xBF then CHR ''S'' # ex_ToUpper s
      else ToUpper_ascii_char c # ex_ToUpper (c' # s))"


text \<open>
  A driver over a store with the given ingresses and one service, \<open>svc\<close> in namespace
  \<open>ns\<close> with port 8080 named \<open>http\<close>; a library in which no ingress has module-set or
  traffic-policy annotations.
\<close>

definition ex_driver :: "Ingress list \<Rightarrow> Driver" where
  "ex_driver ingresses =
     \<lparr>store =
        \<lparr>ListNgrokIngressesV1 = ingresses,
         ListGateways = [],
         GetServiceV1 = (\<lambda>name namespace.
            if name = ''svc'' \<and> namespace = ''ns''
            then Inr (ex_service None [\<lparr>sp_Name = ''http'', sp_Port = 8080, sp_AppProtocol = None\<rparr>])
            else Inl ErrNotFound),
         GetNgrokModuleSetV1 = (\<lambda>name namespace. Inl ErrNotFound),
         GetNgrokTrafficPolicyV1 = (\<lambda>name namespace. Inl ErrNotFound)\<rparr>,
      ingressNgrokMetadata = ''meta'',
      gatewayNgrokMetadata = ''gwmeta'',
      managerName = \<lparr>nn_Namespace = ''ngrok'', nn_Name = ''manager''\<rparr>,
      clusterDomain = ''svc.cluster.local'',
      syncAllowConcurrent = False,
      gatewayEnabled = False,
      gatewayEdgeMap = (\<lambda>gatewayDomainMap. Inr [])\<rparr>"

definition ex_lib :: Lib where
  "ex_lib =
     \<lparr>Unmarshal = ex_Unmarshal,
      ToUpper = ex_ToUpper,
      Marshal = (\<lambda>policy. Inr (case policy of None \<Rightarrow> ''null'' | Some p \<Rightarrow> p)),
      ExtractNgrokModuleSetsFromAnnotations = (\<lambda>ing. Inl (ErrOther ''missing annotations'')),
      ExtractNgrokTrafficPolicyFromAnnotations = (\<lambda>ing. Inl (ErrOther ''missing annotations'')),
      IsMissingAnnotations = (\<lambda>err. err = ErrOther ''missing annotations''),
      Merge = (\<lambda>a b. b),
      HyphenatedDomainNameFromURL = map (\<lambda>c. if c = CHR ''.'' then CHR ''-'' else c)\<rparr>"

definition ex_ingress :: "string \<Rightarrow> string \<Rightarrow> string \<Rightarrow> IngressRule list \<Rightarrow> Ingress" where
  "ex_ingress name namespace uid rules =
     \<lparr>ing_APIVersion = ''networking.k8s.io/v1'', ing_Kind = ''Ingress'',
      ing_Meta = ObjectMeta0\<lparr>Name := name, Namespace := namespace, UID := uid\<rparr>,
      ing_Rules = rules\<rparr>"

text \<open>A prefix path to port 8080 of the service \<open>svc\<close>.\<close>

definition ex_path :: "string \<Rightarrow> HTTPIngressPath" where
  "ex_path path =
     \<lparr>pth_Path = path, pth_PathType = Some ''Prefix'',
      pth_Service = Some \<lparr>isb_Name = ''svc'', isb_Port = \<lparr>sbp_Name = [], sbp_Number = 8080\<rparr>\<rparr>\<rparr>"

text \<open>An edge with the given hostports and nil routes.\<close>

definition ex_edge :: "string \<Rightarrow> string list \<Rightarrow> string \<Rightarrow> HTTPSEdge" where
  "ex_edge name hostports metadata =
     \<lparr>edge_Meta = ObjectMeta0\<lparr>Name := name, Namespace := ''ns''\<rparr>,
      edge_Spec = \<lparr>es_Metadata = metadata, es_Hostports = Some hostports, es_Routes = None,
                   es_TLSTermination = None, es_MutualTLS = None, es_Other = []\<rparr>\<rparr>"

text \<open>An ingress with one rule, without paths, for each of the given hosts.\<close>

definition ex_host_ingress :: "string \<Rightarrow> string \<Rightarrow> string list \<Rightarrow> Ingress" where
  "ex_host_ingress name namespace hosts =
     ex_ingress name namespace (''uid-'' @ name)
       (map (\<lambda>host. \<lparr>rule_Host = host, rule_HTTP = Some []\<rparr>) hosts)"

text \<open>An ingress with one rule, for the host \<open>foo.example.com\<close>, with the given paths.\<close>

definition ex_path_ingress :: "string \<Rightarrow> string \<Rightarrow> HTTPIngressPath list \<Rightarrow> Ingress" where
  "ex_path_ingress name uid paths =
     ex_ingress name ''ns'' uid [\<lparr>rule_Host = ''foo.example.com'', rule_HTTP = Some paths\<rparr>]"

text \<open>The route of the path \<open>/api\<close> of such an ingress.\<close>

definition ex_route :: HTTPSEdgeRouteSpec where
  "ex_route =
     \<lparr>rt_Metadata = ''meta'', rt_Match = ''/api'', rt_MatchType = ''path_prefix'',
      rt_Backend_Labels = Some (ngrokLabels ''ns'' ''svc-uid'' ''svc'' 8080),
      rt_CircuitBreaker = None, rt_Compression = None, rt_IPRestriction = None,
      rt_Headers = None, rt_OAuth = None, rt_Policy = Some ''null'', rt_OIDC = None, rt_SAML = None,
      rt_WebhookVerification = None, rt_Other = []\<rparr>"

text \<open>
  The edge of the host \<open>foo.example.com\<close> with the given routes, in a list that is not
  nil, and the same edge with nil routes, as the calculator scaffolds it.
\<close>

definition ex_routes_edge :: "HTTPSEdgeRouteSpec list \<Rightarrow> HTTPSEdge" where
  "ex_routes_edge routes =
     \<lparr>edge_Meta = ObjectMeta0\<lparr>GenerateName := ''foo-example-com-'', Namespace := ''ns'',
                              Labels := edgeLabels (ex_driver [])\<rparr>,
      edge_Spec = \<lparr>es_Metadata = ''meta'', es_Hostports = Some [''foo.example.com:443''],
                   es_Routes = Some routes, es_TLSTermination = None, es_MutualTLS = None,
                   es_Other = []\<rparr>\<rparr>"

definition ex_scaffold_edge :: HTTPSEdge where
  "ex_scaffold_edge =
     \<lparr>edge_Meta = ObjectMeta0\<lparr>GenerateName := ''foo-example-com-'', Namespace := ''ns'',
                              Labels := edgeLabels (ex_driver [])\<rparr>,
      edge_Spec = \<lparr>es_Metadata = ''meta'', es_Hostports = Some [''foo.example.com:443''],
                   es_Routes = None, es_TLSTermination = None, es_MutualTLS = None,
                   es_Other = []\<rparr>\<rparr>"

text \<open>
  The owner reference of an example ingress, the key of the tunnel to port 8080 of
  \<open>svc\<close>, and that tunnel with the given owner references.
\<close>

definition ex_ref :: "string \<Rightarrow> string \<Rightarrow> OwnerReference" where
  "ex_ref name uid =
     \<lparr>ref_APIVersion = ''networking.k8s.io/v1'', ref_Kind = ''Ingress'', ref_Name = name, ref_UID = uid\<rparr>"

definition ex_key :: tunnelKey where
  "ex_key = \<lparr>tk_namespace = ''ns'', tk_service = ''svc'', tk_port = ''8080''\<rparr>"

definition ex_tunnel :: "OwnerReference list \<Rightarrow> Tunnel" where
  "ex_tunnel refs =
     \<lparr>tun_Meta = ObjectMeta0\<lparr>GenerateName := ''svc-8080-'', Namespace := ''ns'',
                             OwnerReferences := refs,
                             Labels := tunnelLabels (ex_driver []) ''svc'' 8080\<rparr>,
      tun_Spec = \<lparr>ts_ForwardsTo = ''svc.ns.svc.cluster.local:8080'',
                  ts_Labels = ngrokLabels ''ns'' ''svc-uid'' ''svc'' 8080,
                  ts_Protocol = ''HTTP'', ts_AppProtocol = []\<rparr>\<rparr>"

text \<open>A TLS edge with the remote ID \<open>edghts_1\<close>, and a remote API that answers not-found to every delete.\<close>

definition ex_tlsedge :: "string \<Rightarrow> TLSEdge" where
  "ex_tlsedge edgeID =
     \<lparr>tls_Meta = ObjectMeta0\<lparr>Name := ''tls'', Namespace := ''ns''\<rparr>,
      tls_Hostports = [''tls.example.com:443''],
      tls_Status = \<lparr>tst_ID = edgeID, tst_Backend_ID = ''bkdhr_1'', tst_Hostports = [''tls.example.com:443'']\<rparr>\<rparr>"

definition gone_api :: "string \<Rightarrow> unit \<Rightarrow> error option \<times> unit" where
  "gone_api edgeID n = (Some ErrNotFound, n)"

section \<open>Verification of the debouncer\<close>

text \<open>
  The state invariant of the debouncer: a waiter channel held by the driver is a live
  channel that is open, empty and of capacity one; at most one of the two is held; none
  is held while no sync is running.
\<close>

definition fresh_chan :: "driver_sync \<Rightarrow> nat \<Rightarrow> bool" where
  "fresh_chan d ch \<longleftrightarrow>
     ch < length (chans d) \<and> chans d ! ch = \<lparr>ch_buf = [], ch_closed = False, ch_cap = 1\<rparr>"

definition sync_inv :: "driver_sync \<Rightarrow> bool" where
  "sync_inv d \<longleftrightarrow>
     (syncFullCh d = None \<or> syncPartialCh d = None) \<and>
     (syncRunning d \<or> (syncFullCh d = None \<and> syncPartialCh d = None)) \<and>
     (case syncFullCh d of None \<Rightarrow> True | Some ch \<Rightarrow> fresh_chan d ch) \<and>
     (case syncPartialCh d of None \<Rightarrow> True | Some ch \<Rightarrow> fresh_chan d ch)"

lemma sync_inv_init: "sync_inv init_sync"
  by (simp add: sync_inv_def init_sync_def)

lemma syncStart_inv:
  assumes "sync_inv d"
  shows "\<exists>proceed wait d'. syncStart partial d = Inr (proceed, wait, d') \<and> sync_inv d'"
proof (cases "syncRunning d")
  case False
  with assms show ?thesis
    by (auto simp add: syncStart_def sync_inv_def)
next
  case run: True
  show ?thesis
  proof (cases "syncFullCh d")
    case None
    note full = None
    show ?thesis
    proof (cases "syncPartialCh d")
      case None
      with full run assms show ?thesis
        by (cases partial)
           (auto simp add: syncStart_def sync_inv_def overtake_full_def overtake_partial_def
              rbind_def chan_make_def fresh_chan_def nth_append)
    next
      case (Some ch)
      with full run assms show ?thesis
        by (cases partial)
           (auto simp add: syncStart_def sync_inv_def overtake_full_def overtake_partial_def
              rbind_def chan_make_def chan_close_def fresh_chan_def nth_append)
    qed
  next
    case (Some ch)
    with run assms show ?thesis
      by (cases partial)
         (auto simp add: syncStart_def sync_inv_def overtake_full_def overtake_partial_def
            rbind_def chan_make_def chan_close_def fresh_chan_def nth_append)
  qed
qed

lemma syncDone_result:
  assumes "sync_inv d"
  shows "syncDone d =
     Inr (d\<lparr>syncRunning := False, syncFullCh := None, syncPartialCh := None,
            chans := (case syncFullCh d of
                        Some ch \<Rightarrow> (chans d)[ch := \<lparr>ch_buf = [Some ErrSyncDone], ch_closed = True, ch_cap = 1\<rparr>]
                      | None \<Rightarrow> (case syncPartialCh d of
                          Some ch \<Rightarrow> (chans d)[ch := \<lparr>ch_buf = [Some ErrSyncDone], ch_closed = True, ch_cap = 1\<rparr>]
                        | None \<Rightarrow> chans d))\<rparr>)"
proof (cases "syncFullCh d")
  case None
  note full = None
  show ?thesis
  proof (cases "syncPartialCh d")
    case None
    with full show ?thesis
      by (simp add: syncDone_def signal_full_def signal_partial_def rbind_def)
  next
    case (Some ch)
    with full assms show ?thesis
      by (simp add: syncDone_def signal_full_def signal_partial_def rbind_def sync_inv_def
            fresh_chan_def chan_send_def chan_close_def)
  qed
next
  case (Some ch)
  with assms have "syncPartialCh d = None"
    by (simp add: sync_inv_def)
  with Some assms show ?thesis
    by (simp add: syncDone_def signal_full_def signal_partial_def rbind_def sync_inv_def
          fresh_chan_def chan_send_def chan_close_def)
qed

lemma syncDone_inv:
  assumes "sync_inv d"
  shows "\<exists>d'. syncDone d = Inr d' \<and> sync_inv d'"
  by (simp add: syncDone_result [OF assms] sync_inv_def)

lemma sync_step_inv:
  assumes "sync_inv d"
  shows "\<exists>d'. sync_step c d = Inr d' \<and> sync_inv d'"
proof (cases c)
  case (SyncStart partial)
  from syncStart_inv [OF assms, of partial] obtain proceed wait d'
    where "syncStart partial d = Inr (proceed, wait, d')" and "sync_inv d'"
    by blast
  with SyncStart show ?thesis
    by (simp add: rbind_def)
next
  case SyncDone
  with syncDone_inv [OF assms] show ?thesis
    by simp
qed

lemma run_calls_inv:
  assumes "sync_inv d"
  shows "\<exists>d'. run_calls cs d = Inr d' \<and> sync_inv d'"
  using assms
proof (induction cs arbitrary: d)
  case Nil
  then show ?case by simp
next
  case (Cons c cs)
  from sync_step_inv [OF Cons.prems, of c] obtain d1
    where step: "sync_step c d = Inr d1" and inv1: "sync_inv d1"
    by blast
  from Cons.IH [OF inv1] step show ?case
    by (simp add: rbind_def)
qed


section \<open>The debouncer invariant\<close>

text \<open>
  Claim C9. From the initial state, every sequence of calls of \<open>syncStart\<close> and
  \<open>syncDone\<close> runs to a state (no call panics or blocks) in which at most one of the
  two waiter channels, full and partial, is not nil, and in which both are nil whenever
  the running flag is false.
\<close>

theorem debouncer_invariant:
  "\<exists>d. run_calls cs init_sync = Inr d \<and>
        (syncFullCh d = None \<or> syncPartialCh d = None) \<and>
        (\<not> syncRunning d \<longrightarrow> syncFullCh d = None \<and> syncPartialCh d = None)"
proof -
  from run_calls_inv [OF sync_inv_init, of cs] obtain d
    where "run_calls cs init_sync = Inr d" and "sync_inv d"
    by blast
  then show ?thesis
    by (auto simp add: sync_inv_def)
qed

theorem debouncer_invariant_witness:
  "\<exists>d. run_calls [SyncStart False, SyncStart True, SyncStart False, SyncDone] init_sync = Inr d \<and>
        (syncFullCh d = None \<or> syncPartialCh d = None) \<and>
        (\<not> syncRunning d \<longrightarrow> syncFullCh d = None \<and> syncPartialCh d = None) \<and>
        \<not> syncRunning d"
proof -
  have "run_calls [SyncStart False, SyncStart True, SyncStart False, SyncDone] init_sync =
        Inr \<lparr>syncRunning = False, syncFullCh = None, syncPartialCh = None,
             chans = [\<lparr>ch_buf = [], ch_closed = True, ch_cap = 1\<rparr>,
                      \<lparr>ch_buf = [Some ErrSyncDone], ch_closed = True, ch_cap = 1\<rparr>]\<rparr>"
    by (simp add: init_sync_def rbind_def syncStart_def syncDone_def overtake_full_def
          overtake_partial_def signal_full_def signal_partial_def chan_make_def chan_close_def
          chan_send_def)
  with debouncer_invariant [of "[SyncStart False, SyncStart True, SyncStart False, SyncDone]"]
  show ?thesis by simp
qed

section \<open>The end of a sync\<close>



section \<open>Deleting a TLS edge\<close>

text \<open>
  Claim C10. \<open>TLSEdgeReconciler.delete\<close> returns the error of the remote delete call as
  it is, in every case. It sets \<open>Status.ID\<close> of the edge to the empty string when that
  call succeeded or reported not-found, so also when the error it returns is a not-found
  error, and leaves the edge as it was in every other case.
\<close>

theorem TLSEdge_delete_clears_id:
  "TLSEdge_delete TLSEdges_Delete edge n =
     (fst (TLSEdges_Delete (tst_ID (tls_Status edge)) n),
      (if fst (TLSEdges_Delete (tst_ID (tls_Status edge)) n) = None \<or>
          fst (TLSEdges_Delete (tst_ID (tls_Status edge)) n) = Some ErrNotFound
       then edge\<lparr>tls_Status := (tls_Status edge)\<lparr>tst_ID := []\<rparr>\<rparr>
       else edge),
      snd (TLSEdges_Delete (tst_ID (tls_Status edge)) n))"
  by (simp add: TLSEdge_delete_def IsNotFound_def split: prod.splits)

theorem TLSEdge_delete_clears_id_witness:
  "TLSEdge_delete gone_api (ex_tlsedge ''edghts_1'') () = (Some ErrNotFound, ex_tlsedge [], ())"
  using TLSEdge_delete_clears_id [of gone_api "ex_tlsedge ''edghts_1''" "()"]
  by (simp add: gone_api_def ex_tlsedge_def)



section \<open>Protocol resolution\<close>








section \<open>Domain reconciliation\<close>

lemma applyDomains_inner_char:
  "applyDomains_inner cl d cur w =
     (case find (domain_match d) cur of
        None \<Rightarrow> (False, None, w)
      | Some c \<Rightarrow>
          if dom_Spec d \<noteq> dom_Spec c
          then (case Update cl (DomainObj (c\<lparr>dom_Spec := dom_Spec d\<rparr>)) w of
                  (Some err, w') \<Rightarrow> (False, Some err, w')
                | (None, w') \<Rightarrow> (True, None, w'))
          else (True, None, w))"
  by (induction cur) (simp_all add: domain_match_def)

lemma trace_Update: "trace (snd (Update cl x w)) = trace w @ [CallUpdate x]"
  by (simp add: Update_def split: prod.splits)

lemma trace_Create: "trace (snd (Create cl x w)) = trace w @ [CallCreate x]"
  by (simp add: Create_def split: prod.splits)

lemma trace_Delete: "trace (snd (Delete cl x w)) = trace w @ [CallDelete x]"
  by (simp add: Delete_def split: prod.splits)

lemma applyDomains_trace:
  "\<exists>new rest. trace (snd (applyDomains cl desired current w)) = trace w @ new \<and>
       domain_calls desired current = new @ rest \<and>
       (fst (applyDomains cl desired current w) = None \<longrightarrow> rest = [])"
proof (induction desired arbitrary: w)
  case Nil
  show ?case by (simp add: domain_calls_def)
next
  case (Cons d ds)
  show ?case
  proof (cases "find (domain_match d) current")
    case None
    note fnd = None
    obtain e w1 where cr: "Create cl (DomainObj d) w = (e, w1)"
      by (cases "Create cl (DomainObj d) w")
    with trace_Create [of cl "DomainObj d" w]
    have tr: "trace w1 = trace w @ [CallCreate (DomainObj d)]" by simp
    show ?thesis
    proof (cases e)
      case None
      note eN = None
      from Cons.IH [of w1] obtain new rest where
        "trace (snd (applyDomains cl ds current w1)) = trace w1 @ new"
        "domain_calls ds current = new @ rest"
        "fst (applyDomains cl ds current w1) = None \<longrightarrow> rest = []"
        by (elim exE conjE)
      with fnd cr eN tr show ?thesis
        by (simp add: applyDomains_inner_char domain_calls_def domain_calls_one_def)
    next
      case (Some err)
      with fnd cr tr show ?thesis
        by (simp add: applyDomains_inner_char domain_calls_def domain_calls_one_def)
    qed
  next
    case (Some c)
    note fnd = Some
    show ?thesis
    proof (cases "dom_Spec d \<noteq> dom_Spec c")
      case True
      obtain e w1 where up: "Update cl (DomainObj (c\<lparr>dom_Spec := dom_Spec d\<rparr>)) w = (e, w1)"
        by (cases "Update cl (DomainObj (c\<lparr>dom_Spec := dom_Spec d\<rparr>)) w")
      with trace_Update [of cl "DomainObj (c\<lparr>dom_Spec := dom_Spec d\<rparr>)" w]
      have tr: "trace w1 = trace w @ [CallUpdate (DomainObj (c\<lparr>dom_Spec := dom_Spec d\<rparr>))]"
        by simp
      show ?thesis
      proof (cases e)
        case None
        from Cons.IH [of w1] obtain new rest where
          "trace (snd (applyDomains cl ds current w1)) = trace w1 @ new"
          "domain_calls ds current = new @ rest"
          "fst (applyDomains cl ds current w1) = None \<longrightarrow> rest = []"
          by (elim exE conjE)
        with fnd True up None tr show ?thesis
          by (simp add: applyDomains_inner_char domain_calls_def domain_calls_one_def)
      next
        case (Some err)
        with fnd True up tr show ?thesis
          by (simp add: applyDomains_inner_char domain_calls_def domain_calls_one_def)
      qed
    next
      case False
      from Cons.IH [of w] obtain new rest where
        "trace (snd (applyDomains cl ds current w)) = trace w @ new"
        "domain_calls ds current = new @ rest"
        "fst (applyDomains cl ds current w) = None \<longrightarrow> rest = []"
        by (elim exE conjE)
      with fnd False show ?thesis
        by (simp add: applyDomains_inner_char domain_calls_def domain_calls_one_def)
    qed
  qed
qed

lemma find_domain_match_Some:
  "find (domain_match d) cur = Some c \<Longrightarrow> c \<in> set cur \<and> domain_match d c"
  by (auto simp add: find_Some_iff)

lemma domain_calls_one_ok:
  assumes "c \<in> set (domain_calls_one current d)" and "d \<in> set desired"
  shows "\<not> is_delete c \<and> domain_call_ok desired current c"
proof (cases "find (domain_match d) current")
  case None
  with assms show ?thesis
    by (auto simp add: domain_calls_one_def is_delete_def domain_call_ok_def find_None_iff)
next
  case (Some cur)
  from find_domain_match_Some [OF Some] have "cur \<in> set current" "domain_match d cur"
    by simp_all
  with Some assms show ?thesis
    by (auto simp add: domain_calls_one_def is_delete_def domain_call_ok_def split: if_splits)
qed

lemma domain_calls_ok:
  "c \<in> set (domain_calls desired current) \<Longrightarrow> \<not> is_delete c \<and> domain_call_ok desired current c"
  using domain_calls_one_ok by (auto simp add: domain_calls_def)

text \<open>
  Claim C1. For all desired and current domain lists, every client and every state of
  it, the calls that \<open>applyDomains\<close> adds to the trace hold no delete: each is the
  creation of a desired domain that no current domain matches by name and namespace,
  or the update, to the desired spec, of a current domain that matches a desired one of
  a different spec. So a current domain that no desired domain matches is the subject of
  no call. The calls are an initial part of \<open>domain_calls\<close>, and all of it when
  \<open>applyDomains\<close> returns no error.
\<close>

theorem applyDomains_never_deletes:
  "\<exists>new rest.
     trace (snd (applyDomains cl desiredDomains currentDomains w)) = trace w @ new \<and>
     (\<forall>c \<in> set new. \<not> is_delete c \<and> domain_call_ok desiredDomains currentDomains c) \<and>
     domain_calls desiredDomains currentDomains = new @ rest \<and>
     (fst (applyDomains cl desiredDomains currentDomains w) = None \<longrightarrow> rest = [])"
proof -
  from applyDomains_trace [of cl desiredDomains currentDomains w] obtain new rest where
    tr: "trace (snd (applyDomains cl desiredDomains currentDomains w)) = trace w @ new"
    and dc: "domain_calls desiredDomains currentDomains = new @ rest"
    and ok: "fst (applyDomains cl desiredDomains currentDomains w) = None \<longrightarrow> rest = []"
    by (elim exE conjE)
  have "\<forall>c \<in> set new. \<not> is_delete c \<and> domain_call_ok desiredDomains currentDomains c"
  proof
    fix c assume "c \<in> set new"
    with dc have "c \<in> set (domain_calls desiredDomains currentDomains)" by simp
    then show "\<not> is_delete c \<and> domain_call_ok desiredDomains currentDomains c"
      by (rule domain_calls_ok)
  qed
  with tr dc ok show ?thesis by (intro exI conjI)
qed

theorem applyDomains_never_deletes_witness:
  "trace (snd (applyDomains (ok_client [])
      [ex_domain ''a-example-com'' ''ns'' ''a.example.com'' ''new'',
       ex_domain ''b-example-com'' ''ns'' ''b.example.com'' ''new'']
      [ex_domain ''a-example-com'' ''ns'' ''a.example.com'' ''old'',
       ex_domain ''c-example-com'' ''ns'' ''c.example.com'' ''old''] w0)) =
     [CallUpdate (DomainObj (ex_domain ''a-example-com'' ''ns'' ''a.example.com'' ''new'')),
      CallCreate (DomainObj (ex_domain ''b-example-com'' ''ns'' ''b.example.com'' ''new''))] \<and>
   \<not> is_delete (CallUpdate (DomainObj (ex_domain ''a-example-com'' ''ns'' ''a.example.com'' ''new''))) \<and>
   domain_call_ok
     [ex_domain ''a-example-com'' ''ns'' ''a.example.com'' ''new'',
      ex_domain ''b-example-com'' ''ns'' ''b.example.com'' ''new'']
     [ex_domain ''a-example-com'' ''ns'' ''a.example.com'' ''old'',
      ex_domain ''c-example-com'' ''ns'' ''c.example.com'' ''old'']
     (CallUpdate (DomainObj (ex_domain ''a-example-com'' ''ns'' ''a.example.com'' ''new''))) \<and>
   \<not> is_delete (CallCreate (DomainObj (ex_domain ''b-example-com'' ''ns'' ''b.example.com'' ''new''))) \<and>
   domain_call_ok
     [ex_domain ''a-example-com'' ''ns'' ''a.example.com'' ''new'',
      ex_domain ''b-example-com'' ''ns'' ''b.example.com'' ''new'']
     [ex_domain ''a-example-com'' ''ns'' ''a.example.com'' ''old'',
      ex_domain ''c-example-com'' ''ns'' ''c.example.com'' ''old'']
     (CallCreate (DomainObj (ex_domain ''b-example-com'' ''ns'' ''b.example.com'' ''new'')))"
proof -
  have ev: "trace (snd (applyDomains (ok_client [])
      [ex_domain ''a-example-com'' ''ns'' ''a.example.com'' ''new'',
       ex_domain ''b-example-com'' ''ns'' ''b.example.com'' ''new'']
      [ex_domain ''a-example-com'' ''ns'' ''a.example.com'' ''old'',
       ex_domain ''c-example-com'' ''ns'' ''c.example.com'' ''old''] w0)) =
     [CallUpdate (DomainObj (ex_domain ''a-example-com'' ''ns'' ''a.example.com'' ''new'')),
      CallCreate (DomainObj (ex_domain ''b-example-com'' ''ns'' ''b.example.com'' ''new''))]"
    by (simp add: ok_client_def w0_def ex_domain_def ObjectMeta0_def DomainStatus0_def
          Update_def Create_def)
  from applyDomains_never_deletes
    [of "ok_client []"
      "[ex_domain ''a-example-com'' ''ns'' ''a.example.com'' ''new'',
        ex_domain ''b-example-com'' ''ns'' ''b.example.com'' ''new'']"
      "[ex_domain ''a-example-com'' ''ns'' ''a.example.com'' ''old'',
        ex_domain ''c-example-com'' ''ns'' ''c.example.com'' ''old'']" w0]
  show ?thesis
    unfolding ev by (auto simp add: w0_def)
qed

lemmas ex_defs = ex_driver_def ex_lib_def ex_ingress_def ex_path_def ex_edge_def ex_domain_def
  ex_service_def ok_client_def w0_def ObjectMeta0_def DomainStatus0_def Modules0_def
  ex_host_ingress_def ex_path_ingress_def ex_route_def ex_routes_edge_def
  ex_scaffold_edge_def
  ex_ref_def ex_key_def ex_tunnel_def

section \<open>The domain calculator\<close>

lemma domains_rules_map_of:
  "map_of (domains_rules d lib ingress rules m) h =
     (if h \<noteq> [] \<and> h \<in> set (map rule_Host rules)
      then Some (ingressDomain d lib (Namespace (ing_Meta ingress)) h)
      else map_of m h)"
  by (induction rules arbitrary: m) (auto simp add: AList.update_conv' ingressDomain_def)

lemma domains_rules_distinct:
  "distinct (map fst m) \<Longrightarrow> distinct (map fst (domains_rules d lib ingress rules m))"
  by (induction rules arbitrary: m) (simp_all add: AList.distinct_update)

lemma domains_ingresses_distinct:
  "distinct (map fst m) \<Longrightarrow> distinct (map fst (domains_ingresses d lib ings m))"
  by (induction ings arbitrary: m) (simp_all add: domains_rules_distinct)

lemma last_claimant_None: "last_claimant ings h = None \<longleftrightarrow> (\<forall>i \<in> set ings. h \<notin> rule_hosts i)"
  by (induction ings) (auto split: option.splits)

lemma domains_ingresses_map_of:
  "map_of (domains_ingresses d lib ings m) h =
     (if h = [] then map_of m h
      else (case last_claimant ings h of
              Some ns \<Rightarrow> Some (ingressDomain d lib ns h)
            | None \<Rightarrow> map_of m h))"
proof (induction ings arbitrary: m)
  case Nil
  show ?case by simp
next
  case (Cons i rest)
  show ?case
    by (simp add: Cons.IH domains_rules_map_of rule_hosts_def split: option.splits)
qed

lemma calc_domains_map_of:
  "map_of (calculateDomainsFromIngress d lib) h =
     (if h = [] then None
      else map_option (\<lambda>ns. ingressDomain d lib ns h)
             (last_claimant (ListNgrokIngressesV1 (store d)) h))"
  by (simp add: calculateDomainsFromIngress_def domains_ingresses_map_of split: option.splits)

lemma calc_domains_distinct: "distinct (map fst (calculateDomainsFromIngress d lib))"
  by (simp add: calculateDomainsFromIngress_def domains_ingresses_distinct)

lemma calc_domains_keys:
  "fst ` set (calculateDomainsFromIngress d lib) =
     (\<Union>i \<in> set (ListNgrokIngressesV1 (store d)). named_hosts i)"
proof -
  have "fst ` set (calculateDomainsFromIngress d lib) = dom (map_of (calculateDomainsFromIngress d lib))"
    by (simp add: dom_map_of_conv_image_fst)
  also have "\<dots> = {h. h \<noteq> [] \<and> last_claimant (ListNgrokIngressesV1 (store d)) h \<noteq> None}"
    by (auto simp add: dom_def calc_domains_map_of)
  also have "\<dots> = (\<Union>i \<in> set (ListNgrokIngressesV1 (store d)). named_hosts i)"
    by (auto simp add: last_claimant_None named_hosts_def)
  finally show ?thesis .
qed

lemma filter_keys_length:
  assumes "distinct (map fst m)"
  shows "length (filter (\<lambda>(h, dom). h \<in> A) m) = card (fst ` set m \<inter> A)"
proof -
  have "length (filter (\<lambda>(h, dom). h \<in> A) m) = length (map fst (filter (\<lambda>(h, dom). h \<in> A) m))"
    by simp
  also have "map fst (filter (\<lambda>(h, dom). h \<in> A) m) = filter (\<lambda>h. h \<in> A) (map fst m)"
    by (simp add: filter_map comp_def case_prod_unfold)
  also have "length (filter (\<lambda>h. h \<in> A) (map fst m)) = card (set (filter (\<lambda>h. h \<in> A) (map fst m)))"
    using distinct_filter [OF assms, of "\<lambda>h. h \<in> A"] by (rule distinct_card [symmetric])
  also have "set (filter (\<lambda>h. h \<in> A) (map fst m)) = fst ` set m \<inter> A" by auto
  finally show ?thesis .
qed

text \<open>
  Claim C3, as stated, fails. With the ingress \<open>a\<close> of namespace \<open>ns-a\<close>, whose two rules
  have the hosts \<open>""\<close> and \<open>x.example.com\<close>, listed before the ingress \<open>b\<close> of namespace
  \<open>ns-b\<close>, whose rule has the host \<open>x.example.com\<close>, the calculator yields one record: the
  empty host of \<open>a\<close> has none, and the record of \<open>x.example.com\<close> has the namespace \<open>ns-b\<close>.
\<close>

theorem calculateDomainsFromIngress_counterexample:
  "rule_hosts (ex_host_ingress ''a'' ''ns-a'' [[], ''x.example.com'']) = {[], ''x.example.com''} \<and>
   Namespace (ing_Meta (ex_host_ingress ''a'' ''ns-a'' [[], ''x.example.com''])) = ''ns-a'' \<and>
   calculateDomainsFromIngress
     (ex_driver [ex_host_ingress ''a'' ''ns-a'' [[], ''x.example.com''],
                 ex_host_ingress ''b'' ''ns-b'' [''x.example.com'']])
     ex_lib =
     [(''x.example.com'', ex_domain ''x-example-com'' ''ns-b'' ''x.example.com'' ''meta'')]"
  by (simp add: calculateDomainsFromIngress_def rule_hosts_def ex_defs)

text \<open>
  Claim C3, amended. The domain calculator yields exactly one record for each rule host,
  other than the empty one, of the tracked ingresses, and no other record. The \<open>Domain\<close>
  of the spec of a record is its host, and its namespace is that of the last listed
  ingress with a rule for the host. So for each tracked ingress with N different
  non-empty rule hosts there are exactly N records of its hosts; and when the store tracks
  one ingress, the records are N in all and each has the namespace of that ingress.
\<close>

theorem calculateDomainsFromIngress_records:
  "distinct (map fst (calculateDomainsFromIngress d lib)) \<and>
   fst ` set (calculateDomainsFromIngress d lib) =
     (\<Union>ingress \<in> set (ListNgrokIngressesV1 (store d)). named_hosts ingress) \<and>
   (\<forall>host dom. map_of (calculateDomainsFromIngress d lib) host = Some dom \<longrightarrow>
      ds_Domain (dom_Spec dom) = host \<and>
      last_claimant (ListNgrokIngressesV1 (store d)) host = Some (Namespace (dom_Meta dom))) \<and>
   (\<forall>ingress \<in> set (ListNgrokIngressesV1 (store d)).
      length (filter (\<lambda>(host, dom). host \<in> rule_hosts ingress) (calculateDomainsFromIngress d lib)) =
        card (named_hosts ingress)) \<and>
   (\<forall>ingress. ListNgrokIngressesV1 (store d) = [ingress] \<longrightarrow>
      length (calculateDomainsFromIngress d lib) = card (named_hosts ingress) \<and>
      (\<forall>(host, dom) \<in> set (calculateDomainsFromIngress d lib).
         Namespace (dom_Meta dom) = Namespace (ing_Meta ingress)))"
proof -
  let ?m = "calculateDomainsFromIngress d lib"
  let ?ings = "ListNgrokIngressesV1 (store d)"
  have c3: "\<forall>host dom. map_of ?m host = Some dom \<longrightarrow>
      ds_Domain (dom_Spec dom) = host \<and> last_claimant ?ings host = Some (Namespace (dom_Meta dom))"
    by (auto simp add: calc_domains_map_of ingressDomain_def ObjectMeta0_def split: if_splits)
  have c4: "\<forall>ingress \<in> set ?ings.
      length (filter (\<lambda>(host, dom). host \<in> rule_hosts ingress) ?m) = card (named_hosts ingress)"
  proof
    fix ingress assume i: "ingress \<in> set ?ings"
    have "fst ` set ?m \<inter> rule_hosts ingress = named_hosts ingress"
      using i by (auto simp add: calc_domains_keys named_hosts_def)
    then show "length (filter (\<lambda>(host, dom). host \<in> rule_hosts ingress) ?m) = card (named_hosts ingress)"
      by (simp add: filter_keys_length [OF calc_domains_distinct])
  qed
  have c5: "\<forall>ingress. ?ings = [ingress] \<longrightarrow>
      length ?m = card (named_hosts ingress) \<and>
      (\<forall>(host, dom) \<in> set ?m. Namespace (dom_Meta dom) = Namespace (ing_Meta ingress))"
  proof (intro allI impI conjI)
    fix ingress assume one: "?ings = [ingress]"
    have "length ?m = card (fst ` set ?m)"
      using calc_domains_distinct [of d lib] by (metis distinct_card length_map set_map)
    with one show "length ?m = card (named_hosts ingress)" by (simp add: calc_domains_keys)
    show "\<forall>(host, dom) \<in> set ?m. Namespace (dom_Meta dom) = Namespace (ing_Meta ingress)"
    proof (clarify)
      fix host dom assume "(host, dom) \<in> set ?m"
      with calc_domains_distinct [of d lib] have "map_of ?m host = Some dom" by simp
      with c3 have "last_claimant ?ings host = Some (Namespace (dom_Meta dom))" by simp
      with one show "Namespace (dom_Meta dom) = Namespace (ing_Meta ingress)"
        by (simp split: if_splits)
    qed
  qed
  from calc_domains_distinct [of d lib] calc_domains_keys [of d lib] c3 c4 c5 show ?thesis
    by (intro conjI)
qed

theorem calculateDomainsFromIngress_records_witness:
  "ListNgrokIngressesV1 (store (ex_driver
      [ex_host_ingress ''ing'' ''ns'' [''a.example.com'', [], ''b.example.com'', ''a.example.com'']])) =
     [ex_host_ingress ''ing'' ''ns'' [''a.example.com'', [], ''b.example.com'', ''a.example.com'']] \<and>
   named_hosts (ex_host_ingress ''ing'' ''ns'' [''a.example.com'', [], ''b.example.com'', ''a.example.com'']) =
     {''a.example.com'', ''b.example.com''} \<and>
   length (calculateDomainsFromIngress (ex_driver
      [ex_host_ingress ''ing'' ''ns'' [''a.example.com'', [], ''b.example.com'', ''a.example.com'']]) ex_lib) = 2 \<and>
   list_all (\<lambda>(host, dom). Namespace (dom_Meta dom) = ''ns'')
     (calculateDomainsFromIngress (ex_driver
        [ex_host_ingress ''ing'' ''ns'' [''a.example.com'', [], ''b.example.com'', ''a.example.com'']]) ex_lib)"
proof -
  have l: "ListNgrokIngressesV1 (store (ex_driver
      [ex_host_ingress ''ing'' ''ns'' [''a.example.com'', [], ''b.example.com'', ''a.example.com'']])) =
     [ex_host_ingress ''ing'' ''ns'' [''a.example.com'', [], ''b.example.com'', ''a.example.com'']]"
    by (simp add: ex_driver_def)
  have n: "named_hosts (ex_host_ingress ''ing'' ''ns'' [''a.example.com'', [], ''b.example.com'', ''a.example.com'']) =
     {''a.example.com'', ''b.example.com''}"
    by (auto simp add: named_hosts_def rule_hosts_def ex_host_ingress_def ex_ingress_def)
  have ns: "Namespace (ing_Meta (ex_host_ingress ''ing'' ''ns''
      [''a.example.com'', [], ''b.example.com'', ''a.example.com''])) = ''ns''"
    by (simp add: ex_host_ingress_def ex_ingress_def ObjectMeta0_def)
  have c: "card {''a.example.com'', ''b.example.com''} = 2" by simp
  from calculateDomainsFromIngress_records
    [of "ex_driver [ex_host_ingress ''ing'' ''ns'' [''a.example.com'', [], ''b.example.com'', ''a.example.com'']]" ex_lib,
     THEN conjunct2, THEN conjunct2, THEN conjunct2, THEN conjunct2, THEN spec, THEN mp, OF l]
  have "length (calculateDomainsFromIngress (ex_driver
      [ex_host_ingress ''ing'' ''ns'' [''a.example.com'', [], ''b.example.com'', ''a.example.com'']]) ex_lib) =
      card (named_hosts (ex_host_ingress ''ing'' ''ns'' [''a.example.com'', [], ''b.example.com'', ''a.example.com''])) \<and>
    (\<forall>(host, dom) \<in> set (calculateDomainsFromIngress (ex_driver
      [ex_host_ingress ''ing'' ''ns'' [''a.example.com'', [], ''b.example.com'', ''a.example.com'']]) ex_lib).
      Namespace (dom_Meta dom) = Namespace (ing_Meta (ex_host_ingress ''ing'' ''ns''
        [''a.example.com'', [], ''b.example.com'', ''a.example.com''])))" .
  with l n ns c show ?thesis by (simp add: list_all_iff)
qed


section \<open>Edge reconciliation\<close>

lemma applyHTTPSEdges_current_skip:
  "\<not> manageable e \<Longrightarrow>
   applyHTTPSEdges_current cl desired (xs @ e # ys) w = applyHTTPSEdges_current cl desired (xs @ ys) w"
proof (induction xs arbitrary: desired w)
  case Nil
  then show ?case by (simp add: manageable_def Let_def)
next
  case (Cons x xs)
  then show ?case
    by (simp add: Let_def split: option.splits prod.splits if_splits)
qed

lemma applyHTTPSEdges_create_trace:
  "\<exists>new rest. trace (snd (applyHTTPSEdges_create cl desired w)) = trace w @ new \<and>
     map (\<lambda>(k, edge). CallCreate (EdgeObj edge)) desired = new @ rest \<and>
     (fst (applyHTTPSEdges_create cl desired w) = None \<longrightarrow> rest = [])"
proof (induction desired arbitrary: w)
  case Nil
  show ?case by simp
next
  case (Cons kv ds)
  obtain k edge where kv: "kv = (k, edge)" by (cases kv)
  obtain e w1 where cr: "Create cl (EdgeObj edge) w = (e, w1)" by (cases "Create cl (EdgeObj edge) w")
  with trace_Create [of cl "EdgeObj edge" w] have tr: "trace w1 = trace w @ [CallCreate (EdgeObj edge)]" by simp
  show ?case
  proof (cases e)
    case None
    from Cons.IH [of w1] obtain new rest where
      "trace (snd (applyHTTPSEdges_create cl ds w1)) = trace w1 @ new"
      "map (\<lambda>(k, edge). CallCreate (EdgeObj edge)) ds = new @ rest"
      "fst (applyHTTPSEdges_create cl ds w1) = None \<longrightarrow> rest = []"
      by (elim exE conjE)
    with kv cr None tr show ?thesis by simp
  next
    case (Some err)
    with kv cr tr show ?thesis by simp
  qed
qed

lemma applyHTTPSEdges_trace:
  "\<exists>new rest. trace (snd (applyHTTPSEdges cl desired current w)) = trace w @ new \<and>
     edge_calls desired current = new @ rest \<and>
     (fst (applyHTTPSEdges cl desired current w) = None \<longrightarrow> rest = [])"
proof (induction current arbitrary: desired w)
  case Nil
  from applyHTTPSEdges_create_trace [of cl desired w] show ?case
    by (simp add: applyHTTPSEdges_def)
next
  case (Cons e es)
  have step_skip: "applyHTTPSEdges cl desired (e # es) w = applyHTTPSEdges cl desired es w"
    if "length (elems (es_Hostports (edge_Spec e))) \<noteq> 1"
    using that by (simp add: applyHTTPSEdges_def Let_def)
  show ?case
  proof (cases "elems (es_Hostports (edge_Spec e))")
    case Nil
    with Cons.IH [of desired w] step_skip show ?thesis by simp
  next
    case (Cons hostport hs)
    note hp = Cons
    show ?thesis
    proof (cases hs)
      case (Cons h2 hs2)
      with hp Cons.IH [of desired w] step_skip show ?thesis by simp
    next
      case Nil
      with hp have hp1: "elems (es_Hostports (edge_Spec e)) = [hostport]" by simp
      show ?thesis
      proof (cases "map_of desired (TrimSuffix hostport '':443'')")
        case None
        note mo = None
        obtain err w1 where dl: "Delete cl (EdgeObj e) w = (err, w1)" by (cases "Delete cl (EdgeObj e) w")
        with trace_Delete [of cl "EdgeObj e" w] have tr: "trace w1 = trace w @ [CallDelete (EdgeObj e)]" by simp
        show ?thesis
        proof (cases "IgnoreNotFound err \<noteq> None")
          case True
          then obtain er where "err = Some er" by (cases err) (simp_all add: IgnoreNotFound_def)
          with True hp1 mo dl tr show ?thesis
            by (simp add: applyHTTPSEdges_def Let_def)
        next
          case False
          from Cons.IH [of desired w1] obtain new rest where
            "trace (snd (applyHTTPSEdges cl desired es w1)) = trace w1 @ new"
            "edge_calls desired es = new @ rest"
            "fst (applyHTTPSEdges cl desired es w1) = None \<longrightarrow> rest = []"
            by (elim exE conjE)
          with False hp1 mo dl tr show ?thesis
            by (simp add: applyHTTPSEdges_def Let_def)
        qed
      next
        case (Some de)
        note mo = Some
        show ?thesis
        proof (cases "edge_Spec de \<noteq> edge_Spec e")
          case False
          from Cons.IH [of "AList.delete (TrimSuffix hostport '':443'') desired" w] obtain new rest where
            "trace (snd (applyHTTPSEdges cl (AList.delete (TrimSuffix hostport '':443'') desired) es w)) = trace w @ new"
            "edge_calls (AList.delete (TrimSuffix hostport '':443'') desired) es = new @ rest"
            "fst (applyHTTPSEdges cl (AList.delete (TrimSuffix hostport '':443'') desired) es w) = None \<longrightarrow> rest = []"
            by (elim exE conjE)
          with False hp1 mo show ?thesis
            by (simp add: applyHTTPSEdges_def Let_def)
        next
          case True
          obtain err w1 where up: "Update cl (EdgeObj (e\<lparr>edge_Spec := edge_Spec de\<rparr>)) w = (err, w1)"
            by (cases "Update cl (EdgeObj (e\<lparr>edge_Spec := edge_Spec de\<rparr>)) w")
          with trace_Update [of cl "EdgeObj (e\<lparr>edge_Spec := edge_Spec de\<rparr>)" w]
          have tr: "trace w1 = trace w @ [CallUpdate (EdgeObj (e\<lparr>edge_Spec := edge_Spec de\<rparr>))]" by simp
          show ?thesis
          proof (cases err)
            case (Some er)
            with True hp1 mo up tr show ?thesis
              by (simp add: applyHTTPSEdges_def Let_def)
          next
            case None
            from Cons.IH [of "AList.delete (TrimSuffix hostport '':443'') desired" w1] obtain new rest where
              "trace (snd (applyHTTPSEdges cl (AList.delete (TrimSuffix hostport '':443'') desired) es w1)) = trace w1 @ new"
              "edge_calls (AList.delete (TrimSuffix hostport '':443'') desired) es = new @ rest"
              "fst (applyHTTPSEdges cl (AList.delete (TrimSuffix hostport '':443'') desired) es w1) = None \<longrightarrow> rest = []"
              by (elim exE conjE)
            with True hp1 mo up None tr show ?thesis
              by (simp add: applyHTTPSEdges_def Let_def)
          qed
        qed
      qed
    qed
  qed
qed

lemma applyHTTPSEdges_skip:
  "\<not> manageable e \<Longrightarrow>
   applyHTTPSEdges cl desired (xs @ e # ys) w = applyHTTPSEdges cl desired (xs @ ys) w"
  by (simp add: applyHTTPSEdges_def applyHTTPSEdges_current_skip)

lemma edge_calls_ok_gen:
  assumes "set desired' \<subseteq> set desired"
    and "\<forall>k v. map_of desired' k = Some v \<longrightarrow> map_of desired k = Some v"
    and "set es \<subseteq> set current"
    and "c \<in> set (edge_calls desired' es)"
  shows "edge_call_ok desired current c"
  using assms
proof (induction es arbitrary: desired')
  case Nil
  then show ?case
    by (force simp add: edge_call_ok_def)
next
  case (Cons e es)
  from Cons.prems have e_in: "e \<in> set current" and es_in: "set es \<subseteq> set current" by simp_all
  show ?case
  proof (cases "elems (es_Hostports (edge_Spec e))")
    case Nil
    with Cons.prems have "c \<in> set (edge_calls desired' es)" by simp
    with Cons.IH [OF Cons.prems(1) Cons.prems(2) es_in] show ?thesis by simp
  next
    case (Cons hostport hs)
    note hp = Cons
    show ?thesis
    proof (cases hs)
      case (Cons h2 hs2)
      with hp \<open>c \<in> set (edge_calls desired' (e # es))\<close> have "c \<in> set (edge_calls desired' es)" by simp
      with Cons.IH [OF Cons.prems(1) Cons.prems(2) es_in] show ?thesis by simp
    next
      case Nil
      with hp have hp1: "elems (es_Hostports (edge_Spec e)) = [hostport]" by simp
      then have man: "manageable e" by (simp add: manageable_def)
      let ?dom = "TrimSuffix hostport '':443''"
      show ?thesis
      proof (cases "map_of desired' ?dom")
        case None
        with hp1 \<open>c \<in> set (edge_calls desired' (e # es))\<close>
        have "c = CallDelete (EdgeObj e) \<or> c \<in> set (edge_calls desired' es)" by simp
        then show ?thesis
        proof
          assume "c = CallDelete (EdgeObj e)"
          with e_in man show ?thesis by (auto simp add: edge_call_ok_def)
        next
          assume "c \<in> set (edge_calls desired' es)"
          with Cons.IH [OF Cons.prems(1) Cons.prems(2) es_in] show ?thesis by simp
        qed
      next
        case (Some de)
        have sub: "set (AList.delete ?dom desired') \<subseteq> set desired"
          using Cons.prems(1) by (auto simp add: AList.delete_eq)
        have mo: "\<forall>k v. map_of (AList.delete ?dom desired') k = Some v \<longrightarrow> map_of desired k = Some v"
          using Cons.prems(2) by (auto simp add: AList.delete_conv split: if_splits)
        from Some hp1 \<open>c \<in> set (edge_calls desired' (e # es))\<close>
        have "(edge_Spec de \<noteq> edge_Spec e \<and> c = CallUpdate (EdgeObj (e\<lparr>edge_Spec := edge_Spec de\<rparr>))) \<or>
              c \<in> set (edge_calls (AList.delete ?dom desired') es)"
          by (auto split: if_splits)
        then show ?thesis
        proof
          assume a: "edge_Spec de \<noteq> edge_Spec e \<and> c = CallUpdate (EdgeObj (e\<lparr>edge_Spec := edge_Spec de\<rparr>))"
          from Some Cons.prems(2) have "map_of desired ?dom = Some de" by simp
          with a e_in man hp1 show ?thesis
            by (auto simp add: edge_call_ok_def)
        next
          assume "c \<in> set (edge_calls (AList.delete ?dom desired') es)"
          with Cons.IH [OF sub mo es_in] show ?thesis by simp
        qed
      qed
    qed
  qed
qed

lemma edge_calls_ok:
  "c \<in> set (edge_calls desired current) \<Longrightarrow> edge_call_ok desired current c"
  using edge_calls_ok_gen [of desired desired current current c] by simp

lemma edge_call_ok_edge_call: "edge_call_ok desired current c \<Longrightarrow> edge_call c"
  by (auto simp add: edge_call_ok_def edge_call_def)

text \<open>
  Claim C4, as stated, fails in its second part: a current edge with three hostports is
  not one with two, no desired edge matches it, and it is not deleted.
\<close>

theorem applyHTTPSEdges_counterexample:
  "length (elems (es_Hostports (edge_Spec
      (ex_edge ''e3'' [''a.example.com:443'', ''b.example.com:443'', ''c.example.com:443''] ''old'')))) = 3 \<and>
   applyHTTPSEdges (ok_client []) []
     [ex_edge ''e3'' [''a.example.com:443'', ''b.example.com:443'', ''c.example.com:443''] ''old''] w0 =
     (None, w0) \<and>
   trace w0 = []"
  by (simp add: applyHTTPSEdges_def ex_defs elems_def)

text \<open>
  Claim C4, amended. A current edge whose hostport list does not have exactly one entry
  (two entries, and as well none, or three and more) is left alone: \<open>applyHTTPSEdges\<close>
  does the same, call for call, with the edge in the list of current edges and without
  it, whatever the desired edges are. Every call that \<open>applyHTTPSEdges\<close> issues is the
  creation of a desired edge, or the deletion of a current edge with exactly one
  hostport, or the update of such an edge to the different spec of the desired edge of its
  hostport without \<open>:443\<close>. The calls are an initial part of \<open>edge_calls\<close>, and all of it
  when \<open>applyHTTPSEdges\<close> returns no error: there each current edge with one hostport is
  matched with the desired edges not matched by an earlier current edge, updated if the
  specs differ, and deleted if no desired edge matches. The specs differ when
  \<open>reflect.DeepEqual\<close> tells them apart, as it does a nil list of routes and an empty one:
  a current edge with an empty list of routes whose desired edge has none is updated.
\<close>

theorem applyHTTPSEdges_frame:
  "(\<not> manageable e \<longrightarrow>
      applyHTTPSEdges cl desiredEdges (xs @ e # ys) w = applyHTTPSEdges cl desiredEdges (xs @ ys) w) \<and>
   (\<exists>new rest.
      trace (snd (applyHTTPSEdges cl desiredEdges currentEdges w)) = trace w @ new \<and>
      (\<forall>c \<in> set new. edge_call_ok desiredEdges currentEdges c) \<and>
      edge_calls desiredEdges currentEdges = new @ rest \<and>
      (fst (applyHTTPSEdges cl desiredEdges currentEdges w) = None \<longrightarrow> rest = []))"
proof -
  from applyHTTPSEdges_trace [of cl desiredEdges currentEdges w] obtain new rest where
    tr: "trace (snd (applyHTTPSEdges cl desiredEdges currentEdges w)) = trace w @ new"
    and ec: "edge_calls desiredEdges currentEdges = new @ rest"
    and ok: "fst (applyHTTPSEdges cl desiredEdges currentEdges w) = None \<longrightarrow> rest = []"
    by (elim exE conjE)
  have all: "\<forall>c \<in> set new. edge_call_ok desiredEdges currentEdges c"
  proof
    fix c assume "c \<in> set new"
    with ec have "c \<in> set (edge_calls desiredEdges currentEdges)" by simp
    then show "edge_call_ok desiredEdges currentEdges c" by (rule edge_calls_ok)
  qed
  have "\<exists>new rest.
      trace (snd (applyHTTPSEdges cl desiredEdges currentEdges w)) = trace w @ new \<and>
      (\<forall>c \<in> set new. edge_call_ok desiredEdges currentEdges c) \<and>
      edge_calls desiredEdges currentEdges = new @ rest \<and>
      (fst (applyHTTPSEdges cl desiredEdges currentEdges w) = None \<longrightarrow> rest = [])"
    using tr all ec ok by (intro exI conjI)
  then show ?thesis
    using applyHTTPSEdges_skip [of e cl desiredEdges xs ys w] by simp
qed

theorem applyHTTPSEdges_frame_witness:
  "\<not> manageable (ex_edge ''e2'' [''x.example.com:443'', ''y.example.com:443''] ''old'') \<and>
   applyHTTPSEdges (ok_client [])
      [(''a.example.com'', ex_edge [] [''a.example.com:443''] ''new'')]
      [ex_edge ''e2'' [''x.example.com:443'', ''y.example.com:443''] ''old'',
       ex_edge ''ea'' [''a.example.com:443''] ''old'',
       ex_edge ''ez'' [''z.example.com:443''] ''old''] w0 =
   applyHTTPSEdges (ok_client [])
      [(''a.example.com'', ex_edge [] [''a.example.com:443''] ''new'')]
      [ex_edge ''ea'' [''a.example.com:443''] ''old'',
       ex_edge ''ez'' [''z.example.com:443''] ''old''] w0 \<and>
   trace (snd (applyHTTPSEdges (ok_client [])
      [(''a.example.com'', ex_edge [] [''a.example.com:443''] ''new'')]
      [ex_edge ''e2'' [''x.example.com:443'', ''y.example.com:443''] ''old'',
       ex_edge ''ea'' [''a.example.com:443''] ''old'',
       ex_edge ''ez'' [''z.example.com:443''] ''old''] w0)) =
     [CallUpdate (EdgeObj (ex_edge ''ea'' [''a.example.com:443''] ''new'')),
      CallDelete (EdgeObj (ex_edge ''ez'' [''z.example.com:443''] ''old''))] \<and>
   edge_call_ok
     [(''a.example.com'', ex_edge [] [''a.example.com:443''] ''new'')]
     [ex_edge ''e2'' [''x.example.com:443'', ''y.example.com:443''] ''old'',
      ex_edge ''ea'' [''a.example.com:443''] ''old'',
      ex_edge ''ez'' [''z.example.com:443''] ''old'']
     (CallUpdate (EdgeObj (ex_edge ''ea'' [''a.example.com:443''] ''new''))) \<and>
   edge_call_ok
     [(''a.example.com'', ex_edge [] [''a.example.com:443''] ''new'')]
     [ex_edge ''e2'' [''x.example.com:443'', ''y.example.com:443''] ''old'',
      ex_edge ''ea'' [''a.example.com:443''] ''old'',
      ex_edge ''ez'' [''z.example.com:443''] ''old'']
     (CallDelete (EdgeObj (ex_edge ''ez'' [''z.example.com:443''] ''old''))) \<and>
   es_Routes (edge_Spec ex_scaffold_edge) = None \<and>
   es_Routes (edge_Spec (ex_routes_edge [])) = Some [] \<and>
   trace (snd (applyHTTPSEdges (ok_client [])
      [(''foo.example.com'', ex_scaffold_edge)] [ex_routes_edge []] w0)) =
     [CallUpdate (EdgeObj ex_scaffold_edge)] \<and>
   edge_call_ok [(''foo.example.com'', ex_scaffold_edge)] [ex_routes_edge []]
     (CallUpdate (EdgeObj ex_scaffold_edge)) \<and>
   applyHTTPSEdges (ok_client [])
      [(''foo.example.com'', ex_scaffold_edge)] [ex_scaffold_edge] w0 = (None, w0)"
proof -
  have m: "\<not> manageable (ex_edge ''e2'' [''x.example.com:443'', ''y.example.com:443''] ''old'')"
    by (simp add: manageable_def ex_edge_def elems_def)
  have ev: "trace (snd (applyHTTPSEdges (ok_client [])
      [(''a.example.com'', ex_edge [] [''a.example.com:443''] ''new'')]
      [ex_edge ''e2'' [''x.example.com:443'', ''y.example.com:443''] ''old'',
       ex_edge ''ea'' [''a.example.com:443''] ''old'',
       ex_edge ''ez'' [''z.example.com:443''] ''old''] w0)) =
     [CallUpdate (EdgeObj (ex_edge ''ea'' [''a.example.com:443''] ''new'')),
      CallDelete (EdgeObj (ex_edge ''ez'' [''z.example.com:443''] ''old''))]"
    by (simp add: applyHTTPSEdges_def ex_defs TrimSuffix_def Update_def Delete_def
          IgnoreNotFound_def Let_def elems_def)
  have ev2: "trace (snd (applyHTTPSEdges (ok_client [])
      [(''foo.example.com'', ex_scaffold_edge)] [ex_routes_edge []] w0)) =
     [CallUpdate (EdgeObj ex_scaffold_edge)]"
    by (simp add: applyHTTPSEdges_def ex_defs TrimSuffix_def Update_def Delete_def
          IgnoreNotFound_def Let_def elems_def)
  have ev3: "applyHTTPSEdges (ok_client [])
      [(''foo.example.com'', ex_scaffold_edge)] [ex_scaffold_edge] w0 = (None, w0)"
    by (simp add: applyHTTPSEdges_def ex_defs TrimSuffix_def Update_def Delete_def
          IgnoreNotFound_def Let_def elems_def)
  have rs: "es_Routes (edge_Spec ex_scaffold_edge) = None"
    "es_Routes (edge_Spec (ex_routes_edge [])) = Some []"
    by (simp_all add: ex_scaffold_edge_def ex_routes_edge_def)
  from applyHTTPSEdges_frame
    [of _ "ok_client []" "[(''foo.example.com'', ex_scaffold_edge)]" _ _ w0 "[ex_routes_edge []]",
      THEN conjunct2]
  have ok2: "edge_call_ok [(''foo.example.com'', ex_scaffold_edge)] [ex_routes_edge []]
     (CallUpdate (EdgeObj ex_scaffold_edge))"
    unfolding ev2 by (auto simp add: w0_def)
  from applyHTTPSEdges_frame
    [of "ex_edge ''e2'' [''x.example.com:443'', ''y.example.com:443''] ''old''" "ok_client []"
      "[(''a.example.com'', ex_edge [] [''a.example.com:443''] ''new'')]" "[]"
      "[ex_edge ''ea'' [''a.example.com:443''] ''old'', ex_edge ''ez'' [''z.example.com:443''] ''old'']"
      w0
      "[ex_edge ''e2'' [''x.example.com:443'', ''y.example.com:443''] ''old'',
        ex_edge ''ea'' [''a.example.com:443''] ''old'',
        ex_edge ''ez'' [''z.example.com:443''] ''old'']"]
    m
  have "\<not> manageable (ex_edge ''e2'' [''x.example.com:443'', ''y.example.com:443''] ''old'') \<and>
   applyHTTPSEdges (ok_client [])
      [(''a.example.com'', ex_edge [] [''a.example.com:443''] ''new'')]
      [ex_edge ''e2'' [''x.example.com:443'', ''y.example.com:443''] ''old'',
       ex_edge ''ea'' [''a.example.com:443''] ''old'',
       ex_edge ''ez'' [''z.example.com:443''] ''old''] w0 =
   applyHTTPSEdges (ok_client [])
      [(''a.example.com'', ex_edge [] [''a.example.com:443''] ''new'')]
      [ex_edge ''ea'' [''a.example.com:443''] ''old'',
       ex_edge ''ez'' [''z.example.com:443''] ''old''] w0 \<and>
   trace (snd (applyHTTPSEdges (ok_client [])
      [(''a.example.com'', ex_edge [] [''a.example.com:443''] ''new'')]
      [ex_edge ''e2'' [''x.example.com:443'', ''y.example.com:443''] ''old'',
       ex_edge ''ea'' [''a.example.com:443''] ''old'',
       ex_edge ''ez'' [''z.example.com:443''] ''old''] w0)) =
     [CallUpdate (EdgeObj (ex_edge ''ea'' [''a.example.com:443''] ''new'')),
      CallDelete (EdgeObj (ex_edge ''ez'' [''z.example.com:443''] ''old''))] \<and>
   edge_call_ok
     [(''a.example.com'', ex_edge [] [''a.example.com:443''] ''new'')]
     [ex_edge ''e2'' [''x.example.com:443'', ''y.example.com:443''] ''old'',
      ex_edge ''ea'' [''a.example.com:443''] ''old'',
      ex_edge ''ez'' [''z.example.com:443''] ''old'']
     (CallUpdate (EdgeObj (ex_edge ''ea'' [''a.example.com:443''] ''new''))) \<and>
   edge_call_ok
     [(''a.example.com'', ex_edge [] [''a.example.com:443''] ''new'')]
     [ex_edge ''e2'' [''x.example.com:443'', ''y.example.com:443''] ''old'',
      ex_edge ''ea'' [''a.example.com:443''] ''old'',
      ex_edge ''ez'' [''z.example.com:443''] ''old'']
     (CallDelete (EdgeObj (ex_edge ''ez'' [''z.example.com:443''] ''old'')))"
    unfolding ev by (auto simp add: w0_def)
  with rs ev2 ok2 ev3 show ?thesis
    by (elim conjE) (intro conjI, assumption+)
qed

section \<open>The partial sync\<close>

lemma SyncEdges_body_trace:
  "\<exists>new. trace (snd (SyncEdges_body d lib cl w)) = trace w @ new \<and> (\<forall>c \<in> set new. edge_call c)"
proof -
  obtain domains ingressDomains gatewayDomainMap
    where cd: "calculateDomains d lib = (domains, ingressDomains, gatewayDomainMap)"
    by (cases "calculateDomains d lib")
  show ?thesis
  proof (cases "calculateHTTPSEdges d lib ingressDomains gatewayDomainMap")
    case (Inl f)
    with cd show ?thesis
      by (simp add: SyncEdges_body_def)
  next
    case (Inr desiredEdges)
    note ce = Inr
    obtain r w1 where le: "ListEdges cl (edgeLabels d) w = (r, w1)"
      by (cases "ListEdges cl (edgeLabels d) w")
    then have tr1: "trace w1 = trace w @ [CallList HTTPSEdgeList (edgeLabels d)]"
      by (auto simp add: ListEdges_def split: prod.splits)
    show ?thesis
    proof (cases r)
      case (Inl err)
      with cd ce le tr1 show ?thesis
        by (simp add: SyncEdges_body_def edge_call_def)
    next
      case (Inr currEdges)
      from applyHTTPSEdges_trace [of cl desiredEdges currEdges w1] obtain new rest where
        tr: "trace (snd (applyHTTPSEdges cl desiredEdges currEdges w1)) = trace w1 @ new"
        and ec: "edge_calls desiredEdges currEdges = new @ rest"
        by (elim exE conjE)
      have "\<forall>c \<in> set new. edge_call c"
      proof
        fix c assume "c \<in> set new"
        with ec have "c \<in> set (edge_calls desiredEdges currEdges)" by simp
        then show "edge_call c" by (intro edge_call_ok_edge_call edge_calls_ok)
      qed
      with tr tr1 have "trace (snd (applyHTTPSEdges cl desiredEdges currEdges w1)) =
          trace w @ (CallList HTTPSEdgeList (edgeLabels d) # new) \<and>
          (\<forall>c \<in> set (CallList HTTPSEdgeList (edgeLabels d) # new). edge_call c)"
        by (simp add: edge_call_def)
      then have "\<exists>new. trace (snd (applyHTTPSEdges cl desiredEdges currEdges w1)) = trace w @ new \<and>
          (\<forall>c \<in> set new. edge_call c)" by (rule exI)
      with cd ce le Inr show ?thesis
        by (auto simp add: SyncEdges_body_def split: prod.splits option.splits)
    qed
  qed
qed

text \<open>
  Claim C7. Whatever the store, the client, the state of the debouncer and the outcome
  of the call, the calls that \<open>SyncEdges\<close> adds to the trace are the listing of edges and
  creations, updates and deletions of edges: no call lists, creates, updates or deletes
  a domain or a tunnel, and none writes the status of an ingress. (It does compute the
  desired domains, which the desired edges start from, and issues no call for them.)
\<close>

theorem SyncEdges_only_edges:
  "\<exists>new. trace (snd (snd (SyncEdges d lib cl ds w))) = trace w @ new \<and> (\<forall>c \<in> set new. edge_call c)"
proof -
  from SyncEdges_body_trace [of d lib cl w] obtain new where
    b: "trace (snd (SyncEdges_body d lib cl w)) = trace w @ new" "\<forall>c \<in> set new. edge_call c"
    by (elim exE conjE)
  have keep: "\<exists>new. trace w = trace w @ new \<and> (\<forall>c \<in> set new. edge_call c)" by simp
  have body: "\<exists>new. trace (snd (SyncEdges_body d lib cl w)) = trace w @ new \<and> (\<forall>c \<in> set new. edge_call c)"
    using b by (intro exI conjI)
  show ?thesis
    using keep body
    by (auto simp add: SyncEdges_def split: sum.splits prod.splits waiter.splits if_splits)
qed

theorem SyncEdges_only_edges_witness:
  "SyncEdges (ex_driver [ex_path_ingress ''ing'' ''uid-1'' [ex_path ''/api'']]) ex_lib
     (ok_client [ex_edge ''old'' [''gone.example.com:443''] ''meta'']) init_sync w0 =
   (Returned None, init_sync,
    \<lparr>cstate = (),
     trace = [CallList HTTPSEdgeList (edgeLabels (ex_driver [])),
              CallDelete (EdgeObj (ex_edge ''old'' [''gone.example.com:443''] ''meta'')),
              CallCreate (EdgeObj (ex_routes_edge [ex_route]))]\<rparr>) \<and>
   edge_call (CallList HTTPSEdgeList (edgeLabels (ex_driver []))) \<and>
   edge_call (CallDelete (EdgeObj (ex_edge ''old'' [''gone.example.com:443''] ''meta''))) \<and>
   edge_call (CallCreate (EdgeObj (ex_routes_edge [ex_route])))"
proof -
  have ev: "SyncEdges (ex_driver [ex_path_ingress ''ing'' ''uid-1'' [ex_path ''/api'']]) ex_lib
     (ok_client [ex_edge ''old'' [''gone.example.com:443''] ''meta'']) init_sync w0 =
   (Returned None, init_sync,
    \<lparr>cstate = (),
     trace = [CallList HTTPSEdgeList (edgeLabels (ex_driver [])),
              CallDelete (EdgeObj (ex_edge ''old'' [''gone.example.com:443''] ''meta'')),
              CallCreate (EdgeObj (ex_routes_edge [ex_route]))]\<rparr>)"
    by (simp add: SyncEdges_def SyncEdges_body_def syncStart_def syncDone_def signal_full_def
        signal_partial_def rbind_def init_sync_def
        calculateDomains_def calculateDomainsFromIngress_def calculateHTTPSEdges_def scaffoldEdge_def
        calculateHTTPSEdgesFromIngress_def getNgrokModuleSetForIngress_def
        getTrafficPolicyJSON_def getNgrokTrafficPolicyForIngress_def edgeTLS_def edges_path_def
        matchTypeOf_def getEdgeBackend_def findBackendServicePort_def findServicesPort_def
        ingressRoute_def replacingLogs_def edgeLabels_def
        ListEdges_def applyHTTPSEdges_def TrimSuffix_def Create_def Delete_def IgnoreNotFound_def
        ex_defs Let_def elems_def)
  from SyncEdges_only_edges
    [of "ex_driver [ex_path_ingress ''ing'' ''uid-1'' [ex_path ''/api'']]" ex_lib
      "ok_client [ex_edge ''old'' [''gone.example.com:443''] ''meta'']" init_sync w0]
  have "\<forall>c \<in> set [CallList HTTPSEdgeList (edgeLabels (ex_driver [])),
               CallDelete (EdgeObj (ex_edge ''old'' [''gone.example.com:443''] ''meta'')),
               CallCreate (EdgeObj (ex_routes_edge [ex_route]))]. edge_call c"
    unfolding ev by (auto simp add: w0_def)
  with ev show ?thesis by simp
qed

section \<open>Duplicate routes\<close>

lemma edges_path_route:
  "pathRoute d ingress modSet policyJSON p = Some route \<Longrightarrow>
   edges_path d ingress modSet policyJSON p (edge, lg) =
     (edge\<lparr>edge_Spec := (edge_Spec edge)\<lparr>es_Routes := Some (edgeRoutes edge @ [route])\<rparr>\<rparr>,
      lg @ replacingLogs (edgeRoutes edge) route)"
  by (auto simp add: edges_path_def pathRoute_def edgeRoutes_def Let_def
        split: sum.splits option.splits prod.splits)

lemma edges_path_no_route:
  "pathRoute d ingress modSet policyJSON p = None \<Longrightarrow>
   fst (edges_path d ingress modSet policyJSON p (edge, lg)) = edge \<and>
   set lg \<subseteq> set (snd (edges_path d ingress modSet policyJSON p (edge, lg)))"
  by (auto simp add: edges_path_def pathRoute_def Let_def split: sum.splits option.splits prod.splits)

lemma replacingLogs_dup:
  assumes "\<exists>r \<in> set routes. same_match r route"
  shows "LogReplacingExistingRoute (rt_Match route) (rt_Match route) \<in> set (replacingLogs routes route)"
proof -
  from assms obtain r where r: "r \<in> set routes" "rt_Match r = rt_Match route" "rt_MatchType r = rt_MatchType route"
    by (auto simp add: same_match_def)
  then have "LogReplacingExistingRoute (rt_Match r) (rt_Match route) \<in> set (replacingLogs routes route)"
    by (simp add: replacingLogs_def)
  with r show ?thesis by simp
qed

lemma replacingLogs_logged:
  "set (replacingLogs before r) \<subseteq> set lg \<Longrightarrow> logged_duplicates before [r] lg"
  by (auto simp add: replacingLogs_def same_match_def list_all_iff)

lemma logged_mono:
  "logged_duplicates before added lg \<Longrightarrow> set lg \<subseteq> set lg' \<Longrightarrow> logged_duplicates before added lg'"
  by (induction added arbitrary: before) (auto simp add: list_all_iff)

lemma logged_append:
  "logged_duplicates before (a1 @ a2) lg \<longleftrightarrow>
     logged_duplicates before a1 lg \<and> logged_duplicates (before @ a1) a2 lg"
  by (induction a1 arbitrary: before) auto

lemma edges_path_step:
  assumes "edges_path d ingress modSet policyJSON p (edge, lg) = (edge', lg')"
  shows "edgeRoutes edge' =
           edgeRoutes edge @ (case pathRoute d ingress modSet policyJSON p of None \<Rightarrow> [] | Some route \<Rightarrow> [route]) \<and>
         set lg \<subseteq> set lg' \<and>
         logged_duplicates (edgeRoutes edge)
           (case pathRoute d ingress modSet policyJSON p of None \<Rightarrow> [] | Some route \<Rightarrow> [route]) lg'"
proof (cases "pathRoute d ingress modSet policyJSON p")
  case None
  with assms edges_path_no_route [OF None, of edge lg] show ?thesis by simp
next
  case (Some route)
  from assms edges_path_route [OF Some, of edge lg]
  have e: "edge' = edge\<lparr>edge_Spec := (edge_Spec edge)\<lparr>es_Routes := Some (edgeRoutes edge @ [route])\<rparr>\<rparr>"
    and l: "lg' = lg @ replacingLogs (edgeRoutes edge) route" by simp_all
  from l have "logged_duplicates (edgeRoutes edge) [route] lg'"
    by (intro replacingLogs_logged) simp
  with Some e l show ?thesis by (simp add: edgeRoutes_def elems_def)
qed

lemma edges_paths_step:
  "edges_paths d ingress modSet policyJSON paths (edge, lg) = (edge', lg') \<Longrightarrow>
   edgeRoutes edge' = edgeRoutes edge @ List.map_filter (pathRoute d ingress modSet policyJSON) paths \<and>
   set lg \<subseteq> set lg' \<and>
   logged_duplicates (edgeRoutes edge) (List.map_filter (pathRoute d ingress modSet policyJSON) paths) lg'"
proof (induction paths arbitrary: edge lg)
  case Nil
  then show ?case by (simp add: List.map_filter_simps)
next
  case (Cons p ps)
  obtain edge1 lg1 where s1: "edges_path d ingress modSet policyJSON p (edge, lg) = (edge1, lg1)"
    by (cases "edges_path d ingress modSet policyJSON p (edge, lg)")
  let ?one = "case pathRoute d ingress modSet policyJSON p of None \<Rightarrow> [] | Some route \<Rightarrow> [route]"
  let ?more = "List.map_filter (pathRoute d ingress modSet policyJSON) ps"
  from edges_path_step [OF s1]
  have r1: "edgeRoutes edge1 = edgeRoutes edge @ ?one"
    and l1: "set lg \<subseteq> set lg1"
    and d1: "logged_duplicates (edgeRoutes edge) ?one lg1" by simp_all
  from Cons.prems s1 have "edges_paths d ingress modSet policyJSON ps (edge1, lg1) = (edge', lg')"
    by simp
  from Cons.IH [OF this]
  have r2: "edgeRoutes edge' = edgeRoutes edge1 @ ?more"
    and l2: "set lg1 \<subseteq> set lg'"
    and d2: "logged_duplicates (edgeRoutes edge1) ?more lg'" by simp_all
  have mf: "List.map_filter (pathRoute d ingress modSet policyJSON) (p # ps) = ?one @ ?more"
    by (simp add: List.map_filter_simps split: option.splits)
  from d1 l2 have "logged_duplicates (edgeRoutes edge) ?one lg'" by (rule logged_mono)
  with d2 r1 have "logged_duplicates (edgeRoutes edge) (?one @ ?more) lg'"
    by (simp add: logged_append)
  with r1 r2 l1 l2 mf show ?case by auto
qed

lemma edgeTLS_routes: "edgeRoutes (edgeTLS modSet edge) = edgeRoutes edge"
  by (simp add: edgeTLS_def edgeRoutes_def Let_def split: option.splits)

lemma edges_rules_log:
  "edges_rules d ingress modSet policyJSON rules (m, lg) = Inr (m', lg') \<Longrightarrow> set lg \<subseteq> set lg'"
proof (induction rules arbitrary: m lg)
  case Nil
  then show ?case by simp
next
  case (Cons rule rest)
  show ?case
  proof (cases "map_of m (rule_Host rule)")
    case None
    with Cons.prems have "edges_rules d ingress modSet policyJSON rest
        (m, lg @ [LogNoEdgeForRule (rule_Host rule)]) = Inr (m', lg')" by simp
    from Cons.IH [OF this] show ?thesis by simp
  next
    case (Some edge)
    note me = Some
    show ?thesis
    proof (cases "rule_HTTP rule")
      case None
      with me Cons.prems show ?thesis by simp
    next
      case (Some paths)
      obtain edge1 lg1 where ep: "edges_paths d ingress modSet policyJSON paths (edgeTLS modSet edge, lg) = (edge1, lg1)"
        by (cases "edges_paths d ingress modSet policyJSON paths (edgeTLS modSet edge, lg)")
      from edges_paths_step [OF ep] have l1: "set lg \<subseteq> set lg1" by simp
      from me Some ep Cons.prems
      have "edges_rules d ingress modSet policyJSON rest
          (AList.update (rule_Host rule) edge1 m, lg1) = Inr (m', lg')" by simp
      from Cons.IH [OF this] l1 show ?thesis by simp
    qed
  qed
qed

lemma edges_rules_absent:
  "edges_rules d ingress modSet policyJSON rules (m, lg) = Inr (m', lg') \<Longrightarrow>
   map_of m h = None \<Longrightarrow> map_of m' h = None"
proof (induction rules arbitrary: m lg)
  case Nil
  then show ?case by simp
next
  case (Cons rule rest)
  show ?case
  proof (cases "map_of m (rule_Host rule)")
    case None
    with Cons.prems have "edges_rules d ingress modSet policyJSON rest
        (m, lg @ [LogNoEdgeForRule (rule_Host rule)]) = Inr (m', lg')" by simp
    from Cons.IH [OF this Cons.prems(2)] show ?thesis .
  next
    case (Some edge)
    note me = Some
    show ?thesis
    proof (cases "rule_HTTP rule")
      case None
      with me Cons.prems show ?thesis by simp
    next
      case (Some paths)
      obtain edge1 lg1 where ep: "edges_paths d ingress modSet policyJSON paths (edgeTLS modSet edge, lg) = (edge1, lg1)"
        by (cases "edges_paths d ingress modSet policyJSON paths (edgeTLS modSet edge, lg)")
      from me Some ep Cons.prems
      have rec: "edges_rules d ingress modSet policyJSON rest
          (AList.update (rule_Host rule) edge1 m, lg1) = Inr (m', lg')" by simp
      from me Cons.prems(2) have "h \<noteq> rule_Host rule" by auto
      with Cons.prems(2) have "map_of (AList.update (rule_Host rule) edge1 m) h = None"
        by (simp add: AList.update_conv')
      from Cons.IH [OF rec this] show ?thesis .
    qed
  qed
qed

lemma edges_rules_routes:
  assumes "edges_rules d ingress modSet policyJSON rules (m, lg) = Inr (m', lg')"
    and "map_of m h = Some e"
  shows "\<exists>e'. map_of m' h = Some e' \<and>
           edgeRoutes e' = edgeRoutes e @ concat (map (rule_routes d ingress modSet policyJSON h) rules) \<and>
           logged_duplicates (edgeRoutes e)
             (concat (map (rule_routes d ingress modSet policyJSON h) rules)) lg'"
  using assms
proof (induction rules arbitrary: m lg e)
  case Nil
  then show ?case by simp
next
  case (Cons rule rest)
  let ?rr = "rule_routes d ingress modSet policyJSON h"
  show ?case
  proof (cases "map_of m (rule_Host rule)")
    case None
    with Cons.prems have rec: "edges_rules d ingress modSet policyJSON rest
        (m, lg @ [LogNoEdgeForRule (rule_Host rule)]) = Inr (m', lg')" by simp
    from None Cons.prems(2) have "h \<noteq> rule_Host rule" by auto
    then have "?rr rule = []" by (simp add: rule_routes_def)
    with Cons.IH [OF rec Cons.prems(2)] show ?thesis by simp
  next
    case (Some edge)
    note me = Some
    show ?thesis
    proof (cases "rule_HTTP rule")
      case None
      with me Cons.prems show ?thesis by simp
    next
      case (Some paths)
      obtain edge1 lg1 where ep: "edges_paths d ingress modSet policyJSON paths (edgeTLS modSet edge, lg) = (edge1, lg1)"
        by (cases "edges_paths d ingress modSet policyJSON paths (edgeTLS modSet edge, lg)")
      from edges_paths_step [OF ep]
      have r1: "edgeRoutes edge1 =
          edgeRoutes edge @ List.map_filter (pathRoute d ingress modSet policyJSON) paths"
        and d1: "logged_duplicates (edgeRoutes edge)
          (List.map_filter (pathRoute d ingress modSet policyJSON) paths) lg1"
        by (simp_all add: edgeTLS_routes)
      from me Some ep Cons.prems
      have rec: "edges_rules d ingress modSet policyJSON rest
          (AList.update (rule_Host rule) edge1 m, lg1) = Inr (m', lg')" by simp
      from edges_rules_log [OF rec] have l2: "set lg1 \<subseteq> set lg'" .
      show ?thesis
      proof (cases "h = rule_Host rule")
        case True
        then have "map_of (AList.update (rule_Host rule) edge1 m) h = Some edge1"
          by (simp add: AList.update_conv')
        from Cons.IH [OF rec this] obtain e' where
          e': "map_of m' h = Some e'"
          "edgeRoutes e' = edgeRoutes edge1 @ concat (map ?rr rest)"
          "logged_duplicates (edgeRoutes edge1) (concat (map ?rr rest)) lg'"
          by (elim exE conjE)
        from True me Cons.prems(2) have ee: "e = edge" by simp
        from True Some have rr: "?rr rule = List.map_filter (pathRoute d ingress modSet policyJSON) paths"
          by (simp add: rule_routes_def elems_def)
        from d1 l2 have "logged_duplicates (edgeRoutes edge)
          (List.map_filter (pathRoute d ingress modSet policyJSON) paths) lg'" by (rule logged_mono)
        with e'(3) r1 have "logged_duplicates (edgeRoutes edge)
          (List.map_filter (pathRoute d ingress modSet policyJSON) paths @ concat (map ?rr rest)) lg'"
          by (simp add: logged_append)
        with e' r1 ee rr show ?thesis by simp
      next
        case False
        with Cons.prems(2) have mo: "map_of (AList.update (rule_Host rule) edge1 m) h = Some e"
          by (simp add: AList.update_conv')
        from False have "?rr rule = []" by (simp add: rule_routes_def)
        with Cons.IH [OF rec mo] show ?thesis by simp
      qed
    qed
  qed
qed

lemma edges_rules_total:
  "\<forall>rule \<in> set rules. rule_HTTP rule \<noteq> None \<Longrightarrow>
   \<exists>ml'. edges_rules d ingress modSet policyJSON rules ml = Inr ml'"
proof (induction rules arbitrary: ml)
  case Nil
  show ?case by simp
next
  case (Cons rule rest)
  obtain m lg where ml: "ml = (m, lg)" by (cases ml)
  from Cons.prems obtain paths where hp: "rule_HTTP rule = Some paths" by auto
  from Cons.prems have rest: "\<forall>rule \<in> set rest. rule_HTTP rule \<noteq> None" by simp
  show ?case
  proof (cases "map_of m (rule_Host rule)")
    case None
    with ml Cons.IH [OF rest, of "(m, lg @ [LogNoEdgeForRule (rule_Host rule)])"] show ?thesis
      by simp
  next
    case (Some edge)
    obtain edge1 lg1 where ep: "edges_paths d ingress modSet policyJSON paths (edgeTLS modSet edge, lg) = (edge1, lg1)"
      by (cases "edges_paths d ingress modSet policyJSON paths (edgeTLS modSet edge, lg)")
    with ml Some hp Cons.IH [OF rest, of "(AList.update (rule_Host rule) edge1 m, lg1)"] show ?thesis
      by simp
  qed
qed

lemma edges_ingresses_total:
  "\<forall>ingress \<in> set ings. \<forall>rule \<in> set (ing_Rules ingress). rule_HTTP rule \<noteq> None \<Longrightarrow>
   \<exists>ml'. edges_ingresses d lib ings ml = Inr ml'"
proof (induction ings arbitrary: ml)
  case Nil
  show ?case by simp
next
  case (Cons ingress rest)
  obtain m lg where ml: "ml = (m, lg)" by (cases ml)
  from Cons.prems have here: "\<forall>rule \<in> set (ing_Rules ingress). rule_HTTP rule \<noteq> None"
    and rest: "\<forall>ingress \<in> set rest. \<forall>rule \<in> set (ing_Rules ingress). rule_HTTP rule \<noteq> None"
    by simp_all
  show ?case
  proof (cases "getNgrokModuleSetForIngress d lib ingress")
    case (Inl err)
    with ml Cons.IH [OF rest, of "(m, lg @ [LogModuleSetError err])"] show ?thesis by simp
  next
    case (Inr modSet)
    note ms = Inr
    show ?thesis
    proof (cases "getTrafficPolicyJSON d lib ingress modSet")
      case (Inl err)
      with ml ms Cons.IH [OF rest, of "(m, lg @ [LogPolicyError err])"] show ?thesis by simp
    next
      case (Inr policyJSON)
      from edges_rules_total [OF here, of d ingress modSet policyJSON "(m, lg)"] obtain ml1 where
        "edges_rules d ingress modSet policyJSON (ing_Rules ingress) (m, lg) = Inr ml1" ..
      with ml ms Inr Cons.IH [OF rest, of ml1] show ?thesis by simp
    qed
  qed
qed

lemma edges_ingresses_log:
  "edges_ingresses d lib ings (m, lg) = Inr (m', lg') \<Longrightarrow> set lg \<subseteq> set lg'"
proof (induction ings arbitrary: m lg)
  case Nil
  then show ?case by simp
next
  case (Cons ingress rest)
  show ?case
  proof (cases "getNgrokModuleSetForIngress d lib ingress")
    case (Inl err)
    with Cons.prems have "edges_ingresses d lib rest (m, lg @ [LogModuleSetError err]) = Inr (m', lg')"
      by simp
    from Cons.IH [OF this] show ?thesis by simp
  next
    case (Inr modSet)
    note ms = Inr
    show ?thesis
    proof (cases "getTrafficPolicyJSON d lib ingress modSet")
      case (Inl err)
      with ms Cons.prems have "edges_ingresses d lib rest (m, lg @ [LogPolicyError err]) = Inr (m', lg')"
        by simp
      from Cons.IH [OF this] show ?thesis by simp
    next
      case (Inr policyJSON)
      note pj = Inr
      show ?thesis
      proof (cases "edges_rules d ingress modSet policyJSON (ing_Rules ingress) (m, lg)")
        case (Inl f)
        with ms pj Cons.prems show ?thesis by simp
      next
        case (Inr ml1)
        obtain m1 lg1 where ml1: "ml1 = (m1, lg1)" by (cases ml1)
        with Inr have er: "edges_rules d ingress modSet policyJSON (ing_Rules ingress) (m, lg) = Inr (m1, lg1)"
          by simp
        from ms pj er Cons.prems have "edges_ingresses d lib rest (m1, lg1) = Inr (m', lg')" by simp
        from Cons.IH [OF this] edges_rules_log [OF er] show ?thesis by simp
      qed
    qed
  qed
qed

lemma edges_ingresses_absent:
  "edges_ingresses d lib ings (m, lg) = Inr (m', lg') \<Longrightarrow> map_of m h = None \<Longrightarrow> map_of m' h = None"
proof (induction ings arbitrary: m lg)
  case Nil
  then show ?case by simp
next
  case (Cons ingress rest)
  show ?case
  proof (cases "getNgrokModuleSetForIngress d lib ingress")
    case (Inl err)
    with Cons.prems have "edges_ingresses d lib rest (m, lg @ [LogModuleSetError err]) = Inr (m', lg')"
      by simp
    from Cons.IH [OF this Cons.prems(2)] show ?thesis .
  next
    case (Inr modSet)
    note ms = Inr
    show ?thesis
    proof (cases "getTrafficPolicyJSON d lib ingress modSet")
      case (Inl err)
      with ms Cons.prems have "edges_ingresses d lib rest (m, lg @ [LogPolicyError err]) = Inr (m', lg')"
        by simp
      from Cons.IH [OF this Cons.prems(2)] show ?thesis .
    next
      case (Inr policyJSON)
      note pj = Inr
      show ?thesis
      proof (cases "edges_rules d ingress modSet policyJSON (ing_Rules ingress) (m, lg)")
        case (Inl f)
        with ms pj Cons.prems show ?thesis by simp
      next
        case (Inr ml1)
        obtain m1 lg1 where ml1: "ml1 = (m1, lg1)" by (cases ml1)
        with Inr have er: "edges_rules d ingress modSet policyJSON (ing_Rules ingress) (m, lg) = Inr (m1, lg1)"
          by simp
        from ms pj er Cons.prems have rec: "edges_ingresses d lib rest (m1, lg1) = Inr (m', lg')" by simp
        from Cons.IH [OF rec edges_rules_absent [OF er Cons.prems(2)]] show ?thesis .
      qed
    qed
  qed
qed

lemma edges_ingresses_routes:
  assumes "edges_ingresses d lib ings (m, lg) = Inr (m', lg')"
    and "map_of m h = Some e"
  shows "\<exists>e'. map_of m' h = Some e' \<and>
           edgeRoutes e' = edgeRoutes e @ concat (map (ingress_routes d lib h) ings) \<and>
           logged_duplicates (edgeRoutes e) (concat (map (ingress_routes d lib h) ings)) lg'"
  using assms
proof (induction ings arbitrary: m lg e)
  case Nil
  then show ?case by simp
next
  case (Cons ingress rest)
  show ?case
  proof (cases "getNgrokModuleSetForIngress d lib ingress")
    case (Inl err)
    with Cons.prems have "edges_ingresses d lib rest (m, lg @ [LogModuleSetError err]) = Inr (m', lg')"
      by simp
    from Cons.IH [OF this Cons.prems(2)] Inl show ?thesis by (simp add: ingress_routes_def)
  next
    case (Inr modSet)
    note ms = Inr
    show ?thesis
    proof (cases "getTrafficPolicyJSON d lib ingress modSet")
      case (Inl err)
      with ms Cons.prems have "edges_ingresses d lib rest (m, lg @ [LogPolicyError err]) = Inr (m', lg')"
        by simp
      from Cons.IH [OF this Cons.prems(2)] ms Inl show ?thesis by (simp add: ingress_routes_def)
    next
      case (Inr policyJSON)
      note pj = Inr
      show ?thesis
      proof (cases "edges_rules d ingress modSet policyJSON (ing_Rules ingress) (m, lg)")
        case (Inl f)
        with ms pj Cons.prems show ?thesis by simp
      next
        case (Inr ml1)
        obtain m1 lg1 where ml1: "ml1 = (m1, lg1)" by (cases ml1)
        with Inr have er: "edges_rules d ingress modSet policyJSON (ing_Rules ingress) (m, lg) = Inr (m1, lg1)"
          by simp
        from ms pj have ir: "ingress_routes d lib h ingress =
            concat (map (rule_routes d ingress modSet policyJSON h) (ing_Rules ingress))"
          by (simp add: ingress_routes_def)
        from edges_rules_routes [OF er Cons.prems(2)] ir obtain e1 where
          e1: "map_of m1 h = Some e1"
          "edgeRoutes e1 = edgeRoutes e @ ingress_routes d lib h ingress"
          "logged_duplicates (edgeRoutes e) (ingress_routes d lib h ingress) lg1"
          by auto
        from ms pj er Cons.prems have rec: "edges_ingresses d lib rest (m1, lg1) = Inr (m', lg')" by simp
        from Cons.IH [OF rec e1(1)] obtain e' where
          e': "map_of m' h = Some e'"
          "edgeRoutes e' = edgeRoutes e1 @ concat (map (ingress_routes d lib h) rest)"
          "logged_duplicates (edgeRoutes e1) (concat (map (ingress_routes d lib h) rest)) lg'"
          by (elim exE conjE)
        from e1(3) edges_ingresses_log [OF rec]
        have "logged_duplicates (edgeRoutes e) (ingress_routes d lib h ingress) lg'" by (rule logged_mono)
        with e'(3) e1(2) have "logged_duplicates (edgeRoutes e)
            (ingress_routes d lib h ingress @ concat (map (ingress_routes d lib h) rest)) lg'"
          by (simp add: logged_append)
        with e' e1 show ?thesis by simp
      qed
    qed
  qed
qed

lemma scaffoldEdges_routes:
  "\<forall>h e. map_of acc h = Some e \<longrightarrow> edgeRoutes e = [] \<Longrightarrow>
   map_of (scaffoldEdges d doms acc) h = Some e \<Longrightarrow> edgeRoutes e = []"
proof (induction doms arbitrary: acc)
  case Nil
  then show ?case by simp
next
  case (Cons dom rest)
  have "\<forall>h e. map_of (AList.update (ds_Domain (dom_Spec dom)) (scaffoldEdge d dom) acc) h = Some e \<longrightarrow>
      edgeRoutes e = []"
    using Cons.prems(1)
    by (auto simp add: AList.update_conv' scaffoldEdge_def edgeRoutes_def elems_def split: if_splits)
  from Cons.IH [OF this] Cons.prems(2) show ?case by simp
qed

text \<open>
  Claim C8. When a path of an ingress yields a route, the body of the path loop appends
  the route to the routes of the edge and removes none, also when a route of the edge
  has the match and the match type of the new one; in that case it logs "replacing
  existing route". So the routes of an edge after the paths of a rule are its routes
  before, followed by one route for every path that yields one, duplicates included.
  And after a whole pass of the calculator the edge map has, for each host that had an
  edge, an edge whose routes are the routes it had, followed by every route that the
  pass yields for the host, in order and with the duplicates; for each route added and
  each route before it with the same match and match type the log has the message. A
  host without an edge has none after the pass. The pass returns when no rule has a
  nil \<open>HTTP\<close>. In the pass that \<open>calculateHTTPSEdges\<close> makes, over the scaffold edges of
  the ingress domains, the routes of the edge of a host are, after the pass, the routes
  that the pass yields for the host.
\<close>

theorem duplicate_route_retained:
  "(pathRoute d ingress modSet policyJSON httpIngressPath = Some route \<longrightarrow>
      edges_path d ingress modSet policyJSON httpIngressPath (edge, lg) =
        (edge\<lparr>edge_Spec := (edge_Spec edge)\<lparr>es_Routes := Some (edgeRoutes edge @ [route])\<rparr>\<rparr>,
         lg @ replacingLogs (edgeRoutes edge) route) \<and>
      ((\<exists>r \<in> set (edgeRoutes edge). same_match r route) \<longrightarrow>
         LogReplacingExistingRoute (rt_Match route) (rt_Match route)
           \<in> set (replacingLogs (edgeRoutes edge) route))) \<and>
   edgeRoutes (fst (edges_paths d ingress modSet policyJSON paths (edge, lg))) =
     edgeRoutes edge @ List.map_filter (pathRoute d ingress modSet policyJSON) paths \<and>
   (calculateHTTPSEdgesFromIngress d lib edgeMap = Inr (edgeMap', lg') \<longrightarrow>
      (map_of edgeMap h = None \<longrightarrow> map_of edgeMap' h = None) \<and>
      (map_of edgeMap h = Some e \<longrightarrow>
         (\<exists>e'. map_of edgeMap' h = Some e' \<and>
            edgeRoutes e' = edgeRoutes e @ pass_routes d lib h \<and>
            logged_duplicates (edgeRoutes e) (pass_routes d lib h) lg'))) \<and>
   (rules_have_http d \<longrightarrow>
      (\<exists>edgeMap' lg'. calculateHTTPSEdgesFromIngress d lib edgeMap = Inr (edgeMap', lg'))) \<and>
   (calculateHTTPSEdgesFromIngress d lib (scaffoldEdges d ingressDomains []) = Inr (edgeMap', lg') \<longrightarrow>
      map_of (scaffoldEdges d ingressDomains []) h = Some e \<longrightarrow>
      (\<exists>e'. map_of edgeMap' h = Some e' \<and>
         edgeRoutes e' = pass_routes d lib h \<and>
         logged_duplicates [] (pass_routes d lib h) lg'))"
proof -
  have a: "pathRoute d ingress modSet policyJSON httpIngressPath = Some route \<longrightarrow>
      edges_path d ingress modSet policyJSON httpIngressPath (edge, lg) =
        (edge\<lparr>edge_Spec := (edge_Spec edge)\<lparr>es_Routes := Some (edgeRoutes edge @ [route])\<rparr>\<rparr>,
         lg @ replacingLogs (edgeRoutes edge) route) \<and>
      ((\<exists>r \<in> set (edgeRoutes edge). same_match r route) \<longrightarrow>
         LogReplacingExistingRoute (rt_Match route) (rt_Match route)
           \<in> set (replacingLogs (edgeRoutes edge) route))"
    using replacingLogs_dup [of "edgeRoutes edge" route]
      edges_path_route [of d ingress modSet policyJSON httpIngressPath route edge lg]
    by simp
  obtain edge1 lg1 where ep: "edges_paths d ingress modSet policyJSON paths (edge, lg) = (edge1, lg1)"
    by (cases "edges_paths d ingress modSet policyJSON paths (edge, lg)")
  from edges_paths_step [OF ep] ep
  have b: "edgeRoutes (fst (edges_paths d ingress modSet policyJSON paths (edge, lg))) =
     edgeRoutes edge @ List.map_filter (pathRoute d ingress modSet policyJSON) paths"
    by simp
  have c: "calculateHTTPSEdgesFromIngress d lib edgeMap = Inr (edgeMap', lg') \<longrightarrow>
      (map_of edgeMap h = None \<longrightarrow> map_of edgeMap' h = None) \<and>
      (map_of edgeMap h = Some e \<longrightarrow>
         (\<exists>e'. map_of edgeMap' h = Some e' \<and>
            edgeRoutes e' = edgeRoutes e @ pass_routes d lib h \<and>
            logged_duplicates (edgeRoutes e) (pass_routes d lib h) lg'))"
    using edges_ingresses_routes [of d lib "ListNgrokIngressesV1 (store d)" edgeMap "[]" edgeMap' lg' h e]
      edges_ingresses_absent [of d lib "ListNgrokIngressesV1 (store d)" edgeMap "[]" edgeMap' lg' h]
    by (simp add: calculateHTTPSEdgesFromIngress_def pass_routes_def)
  have t: "rules_have_http d \<longrightarrow>
      (\<exists>edgeMap' lg'. calculateHTTPSEdgesFromIngress d lib edgeMap = Inr (edgeMap', lg'))"
    using edges_ingresses_total [of "ListNgrokIngressesV1 (store d)" d lib "(edgeMap, [])"]
    by (auto simp add: calculateHTTPSEdgesFromIngress_def rules_have_http_def)
  have s: "calculateHTTPSEdgesFromIngress d lib (scaffoldEdges d ingressDomains []) = Inr (edgeMap', lg') \<longrightarrow>
      map_of (scaffoldEdges d ingressDomains []) h = Some e \<longrightarrow>
      (\<exists>e'. map_of edgeMap' h = Some e' \<and>
         edgeRoutes e' = pass_routes d lib h \<and>
         logged_duplicates [] (pass_routes d lib h) lg')"
    using edges_ingresses_routes [of d lib "ListNgrokIngressesV1 (store d)"
        "scaffoldEdges d ingressDomains []" "[]" edgeMap' lg' h e]
      scaffoldEdges_routes [of "[]" d ingressDomains h e]
    by (auto simp add: calculateHTTPSEdgesFromIngress_def pass_routes_def)
  from a b c t s show ?thesis by (intro conjI)
qed

theorem duplicate_route_retained_witness:
  "pathRoute (ex_driver []) (ex_path_ingress ''ing'' ''uid-1'' []) Modules0 (Some ''null'') (ex_path ''/api'') =
     Some ex_route \<and>
   (\<exists>r \<in> set (edgeRoutes (ex_routes_edge [ex_route])). same_match r ex_route) \<and>
   edges_path (ex_driver []) (ex_path_ingress ''ing'' ''uid-1'' []) Modules0 (Some ''null'') (ex_path ''/api'')
     (ex_routes_edge [ex_route], []) =
     (ex_routes_edge [ex_route, ex_route], [LogReplacingExistingRoute ''/api'' ''/api'']) \<and>
   calculateHTTPSEdgesFromIngress
     (ex_driver [ex_path_ingress ''ing'' ''uid-1'' [ex_path ''/api'', ex_path ''/api''],
                 ex_path_ingress ''ing2'' ''uid-2'' [ex_path ''/api'']]) ex_lib
     [(''foo.example.com'', ex_scaffold_edge)] =
     Inr ([(''foo.example.com'', ex_routes_edge [ex_route, ex_route, ex_route])],
          [LogReplacingExistingRoute ''/api'' ''/api'', LogReplacingExistingRoute ''/api'' ''/api'',
           LogReplacingExistingRoute ''/api'' ''/api'']) \<and>
   edgeRoutes ex_scaffold_edge = [] \<and>
   pass_routes
     (ex_driver [ex_path_ingress ''ing'' ''uid-1'' [ex_path ''/api'', ex_path ''/api''],
                 ex_path_ingress ''ing2'' ''uid-2'' [ex_path ''/api'']]) ex_lib ''foo.example.com'' =
     [ex_route, ex_route, ex_route] \<and>
   (\<exists>e'. map_of [(''foo.example.com'', ex_routes_edge [ex_route, ex_route, ex_route])] ''foo.example.com'' =
           Some e' \<and>
      edgeRoutes e' = edgeRoutes ex_scaffold_edge @
        pass_routes
          (ex_driver [ex_path_ingress ''ing'' ''uid-1'' [ex_path ''/api'', ex_path ''/api''],
                      ex_path_ingress ''ing2'' ''uid-2'' [ex_path ''/api'']]) ex_lib ''foo.example.com'' \<and>
      logged_duplicates (edgeRoutes ex_scaffold_edge)
        (pass_routes
          (ex_driver [ex_path_ingress ''ing'' ''uid-1'' [ex_path ''/api'', ex_path ''/api''],
                      ex_path_ingress ''ing2'' ''uid-2'' [ex_path ''/api'']]) ex_lib ''foo.example.com'')
        [LogReplacingExistingRoute ''/api'' ''/api'', LogReplacingExistingRoute ''/api'' ''/api'',
         LogReplacingExistingRoute ''/api'' ''/api'']) \<and>
   map_of [(''foo.example.com'', ex_scaffold_edge)] ''bar.example.com'' = None \<and>
   map_of [(''foo.example.com'', ex_routes_edge [ex_route, ex_route, ex_route])] ''bar.example.com'' = None \<and>
   rules_have_http
     (ex_driver [ex_path_ingress ''ing'' ''uid-1'' [ex_path ''/api'', ex_path ''/api''],
                 ex_path_ingress ''ing2'' ''uid-2'' [ex_path ''/api'']]) \<and>
   (\<exists>edgeMap' lg'.
      calculateHTTPSEdgesFromIngress
        (ex_driver [ex_path_ingress ''ing'' ''uid-1'' [ex_path ''/api'', ex_path ''/api''],
                    ex_path_ingress ''ing2'' ''uid-2'' [ex_path ''/api'']]) ex_lib
        [(''foo.example.com'', ex_scaffold_edge)] = Inr (edgeMap', lg')) \<and>
   scaffoldEdges
     (ex_driver [ex_path_ingress ''ing'' ''uid-1'' [ex_path ''/api'', ex_path ''/api''],
                 ex_path_ingress ''ing2'' ''uid-2'' [ex_path ''/api'']])
     [ex_domain ''foo-example-com'' ''ns'' ''foo.example.com'' ''meta''] [] =
     [(''foo.example.com'', ex_scaffold_edge)] \<and>
   (\<exists>e'. map_of [(''foo.example.com'', ex_routes_edge [ex_route, ex_route, ex_route])] ''foo.example.com'' =
           Some e' \<and>
      edgeRoutes e' = [ex_route, ex_route, ex_route] \<and>
      logged_duplicates [] [ex_route, ex_route, ex_route]
        [LogReplacingExistingRoute ''/api'' ''/api'', LogReplacingExistingRoute ''/api'' ''/api'',
         LogReplacingExistingRoute ''/api'' ''/api''])"
proof -
  let ?d = "ex_driver [ex_path_ingress ''ing'' ''uid-1'' [ex_path ''/api'', ex_path ''/api''],
                       ex_path_ingress ''ing2'' ''uid-2'' [ex_path ''/api'']]"
  let ?m = "[(''foo.example.com'', ex_scaffold_edge)]"
  let ?m' = "[(''foo.example.com'', ex_routes_edge [ex_route, ex_route, ex_route])]"
  let ?lg = "[LogReplacingExistingRoute ''/api'' ''/api'', LogReplacingExistingRoute ''/api'' ''/api'',
              LogReplacingExistingRoute ''/api'' ''/api'']"
  have pr: "pathRoute (ex_driver []) (ex_path_ingress ''ing'' ''uid-1'' []) Modules0 (Some ''null'') (ex_path ''/api'') =
     Some ex_route"
    by (simp add: pathRoute_def matchTypeOf_def getEdgeBackend_def findBackendServicePort_def
          findServicesPort_def ingressRoute_def ex_defs)
  have dup: "\<exists>r \<in> set (edgeRoutes (ex_routes_edge [ex_route])). same_match r ex_route"
    by (simp add: same_match_def ex_routes_edge_def edgeRoutes_def elems_def)
  have calc: "calculateHTTPSEdgesFromIngress ?d ex_lib ?m = Inr (?m', ?lg)"
    by (simp add: calculateHTTPSEdgesFromIngress_def getNgrokModuleSetForIngress_def
        getTrafficPolicyJSON_def getNgrokTrafficPolicyForIngress_def edgeTLS_def edges_path_def
        matchTypeOf_def getEdgeBackend_def findBackendServicePort_def findServicesPort_def
        ingressRoute_def replacingLogs_def ex_defs Let_def elems_def)
  have mo: "map_of ?m ''foo.example.com'' = Some ex_scaffold_edge"
    by simp
  have no: "map_of ?m ''bar.example.com'' = None"
    by simp
  have http: "rules_have_http ?d"
    by (simp add: rules_have_http_def ex_driver_def ex_path_ingress_def ex_ingress_def)
  have rs: "edgeRoutes ex_scaffold_edge = []"
    by (simp add: edgeRoutes_def elems_def ex_scaffold_edge_def)
  have ps: "pass_routes ?d ex_lib ''foo.example.com'' = [ex_route, ex_route, ex_route]"
    by (simp add: pass_routes_def ingress_routes_def rule_routes_def getNgrokModuleSetForIngress_def
        getTrafficPolicyJSON_def getNgrokTrafficPolicyForIngress_def
        pathRoute_def matchTypeOf_def getEdgeBackend_def findBackendServicePort_def
        findServicesPort_def ingressRoute_def List.map_filter_simps ex_defs elems_def)
  have rts: "edgeRoutes (ex_routes_edge [ex_route]) = [ex_route]"
    by (simp add: ex_routes_edge_def edgeRoutes_def elems_def)
  have rl: "replacingLogs [ex_route] ex_route = [LogReplacingExistingRoute ''/api'' ''/api'']"
    by (simp add: replacingLogs_def ex_route_def)
  have upd: "(ex_routes_edge [ex_route])\<lparr>edge_Spec := (edge_Spec (ex_routes_edge [ex_route]))
      \<lparr>es_Routes := Some [ex_route, ex_route]\<rparr>\<rparr> = ex_routes_edge [ex_route, ex_route]"
    by (simp add: ex_routes_edge_def)
  from duplicate_route_retained
    [of "ex_driver []" "ex_path_ingress ''ing'' ''uid-1'' []" Modules0 "Some ''null''" "ex_path ''/api''"
      ex_route "ex_routes_edge [ex_route]" "[]"]
    pr
  have ep: "edges_path (ex_driver []) (ex_path_ingress ''ing'' ''uid-1'' []) Modules0 (Some ''null'') (ex_path ''/api'')
     (ex_routes_edge [ex_route], []) =
     (ex_routes_edge [ex_route, ex_route], [LogReplacingExistingRoute ''/api'' ''/api''])"
    by (simp add: rts rl upd)
  note pass = duplicate_route_retained
    [of ?d _ _ _ _ _ _ _ _ ex_lib ?m ?m' ?lg "''foo.example.com''" ex_scaffold_edge,
      THEN conjunct2, THEN conjunct2]
  from pass [THEN conjunct1, THEN mp, OF calc, THEN conjunct2, THEN mp, OF mo]
  have keep: "\<exists>e'. map_of ?m' ''foo.example.com'' = Some e' \<and>
      edgeRoutes e' = edgeRoutes ex_scaffold_edge @ pass_routes ?d ex_lib ''foo.example.com'' \<and>
      logged_duplicates (edgeRoutes ex_scaffold_edge) (pass_routes ?d ex_lib ''foo.example.com'') ?lg" .
  from pass [THEN conjunct2, THEN conjunct1, THEN mp, OF http]
  have total: "\<exists>edgeMap' lg'. calculateHTTPSEdgesFromIngress ?d ex_lib ?m = Inr (edgeMap', lg')" .
  from duplicate_route_retained
    [of ?d _ _ _ _ _ _ _ _ ex_lib ?m ?m' ?lg "''bar.example.com''",
      THEN conjunct2, THEN conjunct2, THEN conjunct1, THEN mp, OF calc, THEN conjunct1, THEN mp, OF no]
  have absent: "map_of ?m' ''bar.example.com'' = None" .
  have sc: "scaffoldEdges ?d [ex_domain ''foo-example-com'' ''ns'' ''foo.example.com'' ''meta''] [] = ?m"
    by (simp add: scaffoldEdge_def edgeLabels_def ex_defs)
  from duplicate_route_retained
    [of ?d _ _ _ _ _ _ _ _ ex_lib _ ?m' ?lg "''foo.example.com''" ex_scaffold_edge
      "[ex_domain ''foo-example-com'' ''ns'' ''foo.example.com'' ''meta'']",
      THEN conjunct2, THEN conjunct2, THEN conjunct2, THEN conjunct2, unfolded sc ps,
      THEN mp, OF calc, THEN mp, OF mo]
  have scaf: "\<exists>e'. map_of ?m' ''foo.example.com'' = Some e' \<and>
      edgeRoutes e' = [ex_route, ex_route, ex_route] \<and>
      logged_duplicates [] [ex_route, ex_route, ex_route] ?lg" .
  from pr dup ep calc rs ps keep no absent http total sc scaf show ?thesis by (intro conjI)
qed

section \<open>The tunnel calculator\<close>

lemmas tunnel_defs = calculateTunnelsFromIngress_def tunnels_path_def ingressTunnelKey_def
  newIngressTunnel_def tunnelBackendOrZero_def getTunnelBackend_def findBackendServicePort_def
  findServicesPort_def getPortAnnotatedProtocol_def getPortAppProtocol_def addIngressReference_def
  ingressOwnerReference_def tunnelLabels_def ngrokLabels_def Itoa_def char_of_def bit_0 Let_def

lemmas contrib_defs = tunnel_contributions_def ingress_contributions_def ingress_backends_def
  List.map_filter_simps

lemma withOwners_same [simp]: "withOwners t (OwnerReferences (tun_Meta t)) = t"
  by (simp add: withOwners_def)

lemma withOwners_twice [simp]: "withOwners (withOwners t a) b = withOwners t b"
  by (simp add: withOwners_def)

lemma owners_withOwners [simp]: "OwnerReferences (tun_Meta (withOwners t a)) = a"
  by (simp add: withOwners_def)

lemma addIngressReference_addRef:
  "addIngressReference ingress tunnel =
     withOwners tunnel (addRef (ingressOwnerReference ingress) (OwnerReferences (tun_Meta tunnel)))"
  by (simp add: addIngressReference_def addRef_def withOwners_def ingressOwnerReference_def)

lemma tunnels_path_contribute:
  "tunnels_path d lib ingress path tunnels =
     (case pth_Service path of
        None \<Rightarrow> tunnels
      | Some backendSvc \<Rightarrow>
          contribute (ingressTunnelKey d lib ingress backendSvc,
                      newIngressTunnel d lib ingress backendSvc,
                      ingressOwnerReference ingress) tunnels)"
  by (simp add: tunnels_path_def contribute_def addIngressReference_addRef Let_def split: option.splits)

lemma tunnels_paths_fold:
  "tunnels_paths d lib ingress paths tunnels =
     fold contribute (map (triple d lib ingress) (List.map_filter pth_Service paths)) tunnels"
  by (induction paths arbitrary: tunnels)
     (simp_all add: tunnels_path_contribute List.map_filter_simps triple_def split: option.splits)

lemma tunnels_rules_fold:
  "tunnels_rules d lib ingress rules tunnels =
     (if \<forall>rule \<in> set rules. rule_HTTP rule \<noteq> None
      then Inr (fold contribute
                  (map (triple d lib ingress)
                     (concat (map (\<lambda>rule. case rule_HTTP rule of None \<Rightarrow> []
                                            | Some paths \<Rightarrow> List.map_filter pth_Service paths) rules)))
                  tunnels)
      else Inl Panic)"
proof (induction rules arbitrary: tunnels)
  case Nil
  show ?case by simp
next
  case (Cons rule rest)
  show ?case
  proof (cases "rule_HTTP rule")
    case None
    then show ?thesis by auto
  next
    case (Some paths)
    then show ?thesis
      by (simp add: Cons.IH tunnels_paths_fold)
  qed
qed

lemma ingress_contributions_triple:
  "ingress_contributions d lib ingress = map (triple d lib ingress) (ingress_backends ingress)"
  by (simp add: ingress_contributions_def triple_def)

lemma tunnels_ingresses_fold:
  "tunnels_ingresses d lib ings tunnels =
     (if \<forall>ingress \<in> set ings. \<forall>rule \<in> set (ing_Rules ingress). rule_HTTP rule \<noteq> None
      then Inr (fold contribute (concat (map (ingress_contributions d lib) ings)) tunnels)
      else Inl Panic)"
proof (induction ings arbitrary: tunnels)
  case Nil
  show ?case by simp
next
  case (Cons ingress rest)
  show ?case
  proof (cases "\<forall>rule \<in> set (ing_Rules ingress). rule_HTTP rule \<noteq> None")
    case True
    then have "tunnels_rules d lib ingress (ing_Rules ingress) tunnels =
        Inr (fold contribute (ingress_contributions d lib ingress) tunnels)"
      by (simp add: tunnels_rules_fold ingress_contributions_triple ingress_backends_def)
    with True show ?thesis
      by (simp add: Cons.IH)
  next
    case False
    then have "tunnels_rules d lib ingress (ing_Rules ingress) tunnels = Inl Panic"
      by (simp add: tunnels_rules_fold)
    with False show ?thesis
      by auto
  qed
qed

lemma calculateTunnels_fold:
  "calculateTunnelsFromIngress d lib tunnels =
     (if rules_have_http d then Inr (fold contribute (tunnel_contributions d lib) tunnels)
      else Inl Panic)"
  by (simp add: calculateTunnelsFromIngress_def tunnels_ingresses_fold rules_have_http_def
        tunnel_contributions_def)

lemma contribute_distinct:
  "distinct (map fst ts) \<Longrightarrow> distinct (map fst (contribute c ts))"
  by (cases c) (simp add: contribute_def Let_def AList.distinct_update)

lemma fold_contribute_distinct:
  "distinct (map fst ts) \<Longrightarrow> distinct (map fst (fold contribute cs ts))"
  by (induction cs arbitrary: ts) (simp_all add: contribute_distinct)

lemma map_of_contribute:
  "map_of (contribute (key, new, ref) ts) k =
     (if k = key
      then Some (withOwners (case map_of ts key of Some t \<Rightarrow> t | None \<Rightarrow> new)
                   (addRef ref (OwnerReferences (tun_Meta (case map_of ts key of Some t \<Rightarrow> t | None \<Rightarrow> new)))))
      else map_of ts k)"
  by (simp add: contribute_def Let_def AList.update_conv')

lemma key_refs_Cons:
  "key_refs k ((key, new, ref) # cs) = (if key = k then ref # key_refs k cs else key_refs k cs)"
  by (simp add: key_refs_def)

lemma base_tunnel_Cons:
  "base_tunnel k ((key, new, ref) # cs) old =
     (if key = k then Some (case old of Some t \<Rightarrow> t | None \<Rightarrow> new) else base_tunnel k cs old)"
  by (simp add: base_tunnel_def split: option.splits)

lemma base_tunnel_Some: "base_tunnel k cs (Some t) = Some t"
  by (simp add: base_tunnel_def)

lemma fold_contribute_map_of:
  "map_of (fold contribute cs ts) k =
     map_option (\<lambda>t. withOwners t (fold addRef (key_refs k cs) (OwnerReferences (tun_Meta t))))
       (base_tunnel k cs (map_of ts k))"
proof (induction cs arbitrary: ts)
  case Nil
  show ?case by (simp add: key_refs_def base_tunnel_def split: option.splits)
next
  case (Cons c cs)
  obtain key new ref where c: "c = (key, new, ref)" by (cases c)
  show ?case
  proof (cases "key = k")
    case False
    then have "k \<noteq> key" by simp
    with False c show ?thesis
      by (simp add: Cons.IH map_of_contribute key_refs_Cons base_tunnel_Cons)
  next
    case True
    with c show ?thesis
      by (simp add: Cons.IH map_of_contribute key_refs_Cons base_tunnel_Cons base_tunnel_Some)
  qed
qed

lemma addRef_uids: "ref_UID ` set (addRef r refs) = insert (ref_UID r) (ref_UID ` set refs)"
proof (cases "list_ex (\<lambda>x. ref_UID x = ref_UID r) refs")
  case True
  then obtain x where "x \<in> set refs" "ref_UID x = ref_UID r"
    by (auto simp add: list_ex_iff)
  then have "ref_UID r \<in> ref_UID ` set refs" by (metis imageI)
  with True show ?thesis by (auto simp add: addRef_def)
next
  case False
  then show ?thesis by (auto simp add: addRef_def)
qed

lemma addRef_subset: "set (addRef r refs) \<subseteq> insert r (set refs)"
  by (auto simp add: addRef_def)

lemma addRef_sorted:
  assumes "sorted_wrt (<) (map ref_UID refs)"
  shows "sorted_wrt (<) (map ref_UID (addRef r refs))"
proof (cases "list_ex (\<lambda>x. ref_UID x = ref_UID r) refs")
  case True
  with assms show ?thesis by (simp add: addRef_def)
next
  case False
  then have new: "ref_UID r \<notin> ref_UID ` set refs"
    by (auto simp add: list_ex_iff)
  from assms have d: "distinct (map ref_UID refs)"
    by (simp add: strict_sorted_iff)
  have "mset (map ref_UID (sort_key ref_UID (refs @ [r]))) = mset (map ref_UID (refs @ [r]))"
    by simp
  then have "distinct (map ref_UID (sort_key ref_UID (refs @ [r]))) = distinct (map ref_UID (refs @ [r]))"
    by (rule mset_eq_imp_distinct_iff)
  with d new have "distinct (map ref_UID (sort_key ref_UID (refs @ [r])))"
    by simp
  moreover have "sorted (map ref_UID (sort_key ref_UID (refs @ [r])))"
    by (rule sorted_sort_key)
  ultimately show ?thesis
    using False by (simp add: addRef_def strict_sorted_iff)
qed

lemma fold_addRef_uids: "ref_UID ` set (fold addRef rs refs) = ref_UID ` set rs \<union> ref_UID ` set refs"
  by (induction rs arbitrary: refs) (auto simp add: addRef_uids)

lemma fold_addRef_subset: "set (fold addRef rs refs) \<subseteq> set rs \<union> set refs"
proof (induction rs arbitrary: refs)
  case Nil
  show ?case by simp
next
  case (Cons r rs)
  from Cons.IH [of "addRef r refs"] addRef_subset [of r refs] show ?case by auto
qed

lemma fold_addRef_sorted:
  "sorted_wrt (<) (map ref_UID refs) \<Longrightarrow> sorted_wrt (<) (map ref_UID (fold addRef rs refs))"
  by (induction rs arbitrary: refs) (simp_all add: addRef_sorted)

lemma fold_addRef_set:
  assumes "\<forall>r1 \<in> set rs. \<forall>r2 \<in> set rs. ref_UID r1 = ref_UID r2 \<longrightarrow> r1 = r2"
  shows "set (fold addRef rs []) = set rs"
proof
  from fold_addRef_subset [of rs "[]"] show "set (fold addRef rs []) \<subseteq> set rs" by simp
next
  show "set rs \<subseteq> set (fold addRef rs [])"
  proof
    fix r assume r: "r \<in> set rs"
    then have "ref_UID r \<in> ref_UID ` set (fold addRef rs [])"
      by (simp add: fold_addRef_uids)
    then obtain r' where r': "r' \<in> set (fold addRef rs [])" "ref_UID r' = ref_UID r"
      by auto
    with fold_addRef_subset [of rs "[]"] have "r' \<in> set rs" by auto
    with assms r r' have "r' = r" by auto
    with r' show "r \<in> set (fold addRef rs [])" by simp
  qed
qed

lemma strict_sorted_key_unique:
  fixes f :: "'a \<Rightarrow> 'b::linorder"
  assumes "sorted_wrt (<) (map f xs)" and "sorted_wrt (<) (map f ys)" and "set xs = set ys"
  shows "xs = ys"
proof -
  from assms(3) have "set (map f ys) = set (map f xs)" by simp
  with assms(1,2) have eq: "map f ys = map f xs"
    by (rule strict_sorted_equal)
  from assms(1) have "distinct (map f xs)" by (simp add: strict_sorted_iff)
  then have "inj_on f (set xs)" by (simp add: distinct_map)
  with assms(3) have "inj_on f (set xs \<union> set ys)" by simp
  then have "(map f xs = map f ys) = (xs = ys)" by (rule inj_on_map_eq_map)
  with eq show ?thesis by simp
qed

lemma fold_addRef_perm:
  assumes "\<forall>r1 \<in> set rs. \<forall>r2 \<in> set rs. ref_UID r1 = ref_UID r2 \<longrightarrow> r1 = r2"
    and "set rs' = set rs"
  shows "fold addRef rs' [] = fold addRef rs []"
proof (rule strict_sorted_key_unique [where f = ref_UID])
  show "sorted_wrt (<) (map ref_UID (fold addRef rs' []))" by (simp add: fold_addRef_sorted)
  show "sorted_wrt (<) (map ref_UID (fold addRef rs []))" by (simp add: fold_addRef_sorted)
  from assms have "\<forall>r1 \<in> set rs'. \<forall>r2 \<in> set rs'. ref_UID r1 = ref_UID r2 \<longrightarrow> r1 = r2" by simp
  then have "set (fold addRef rs' []) = set rs'" by (rule fold_addRef_set)
  moreover from assms(1) have "set (fold addRef rs []) = set rs" by (rule fold_addRef_set)
  ultimately show "set (fold addRef rs' []) = set (fold addRef rs [])" using assms(2) by simp
qed

lemma newIngressTunnel_owners: "OwnerReferences (tun_Meta (newIngressTunnel d lib ingress b)) = []"
  by (simp add: newIngressTunnel_def ObjectMeta0_def split: prod.splits)

lemma contributions_new_owners:
  "c \<in> set (tunnel_contributions d lib) \<Longrightarrow> OwnerReferences (tun_Meta (fst (snd c))) = []"
  by (auto simp add: tunnel_contributions_def ingress_contributions_def newIngressTunnel_owners)

lemma find_key_Some:
  "find (\<lambda>c. fst c = k) cs = Some c \<Longrightarrow> c \<in> set cs \<and> fst c = k"
  by (auto simp add: find_Some_iff)

lemma find_key_None: "find (\<lambda>c. fst c = k) cs = None \<longleftrightarrow> k \<notin> fst ` set cs"
  by (force simp add: find_None_iff)

lemma key_refs_uids:
  "ref_UID ` set (key_refs k (tunnel_contributions d lib)) = owner_uids d lib k"
  by (auto simp add: key_refs_def owner_uids_def case_prod_unfold)

lemma calc_tunnel:
  assumes "map_of (fold contribute (tunnel_contributions d lib) []) k = Some t"
  shows "\<exists>c \<in> set (tunnel_contributions d lib). fst c = k \<and>
           t = withOwners (fst (snd c)) (fold addRef (key_refs k (tunnel_contributions d lib)) [])"
proof -
  let ?cs = "tunnel_contributions d lib"
  from assms obtain t0 where b: "base_tunnel k ?cs None = Some t0"
    and t: "t = withOwners t0 (fold addRef (key_refs k ?cs) (OwnerReferences (tun_Meta t0)))"
    by (auto simp add: fold_contribute_map_of)
  from b obtain c where f: "find (\<lambda>c. fst c = k) ?cs = Some c" and t0: "t0 = fst (snd c)"
    by (auto simp add: base_tunnel_def)
  from find_key_Some [OF f] have c: "c \<in> set ?cs" "fst c = k" by simp_all
  from contributions_new_owners [OF c(1)] t0 have "OwnerReferences (tun_Meta t0) = []" by simp
  with t t0 c show ?thesis by auto
qed

lemma calc_tunnel_keys:
  "fst ` set (fold contribute cs []) = fst ` set cs"
proof -
  have "fst ` set (fold contribute cs []) = dom (map_of (fold contribute cs []))"
    by (simp add: dom_map_of_conv_image_fst)
  also have "\<dots> = {k. find (\<lambda>c. fst c = k) cs \<noteq> None}"
    by (auto simp add: dom_def fold_contribute_map_of base_tunnel_def)
  also have "\<dots> = fst ` set cs"
    by (auto simp add: find_key_None)
  finally show ?thesis .
qed

lemma consistent_uid:
  assumes "consistent_contributions cs" and "c1 \<in> set cs" and "c2 \<in> set cs"
    and "ref_UID (snd (snd c1)) = ref_UID (snd (snd c2))"
  shows "snd (snd c1) = snd (snd c2)"
proof -
  from assms(1) have "\<forall>c1 \<in> set cs. \<forall>c2 \<in> set cs.
      (ref_UID (snd (snd c1)) = ref_UID (snd (snd c2)) \<longrightarrow> snd (snd c1) = snd (snd c2)) \<and>
      (fst c1 = fst c2 \<longrightarrow> fst (snd c1) = fst (snd c2))"
    by (simp only: consistent_contributions_def)
  then have "\<forall>c2 \<in> set cs.
      (ref_UID (snd (snd c1)) = ref_UID (snd (snd c2)) \<longrightarrow> snd (snd c1) = snd (snd c2)) \<and>
      (fst c1 = fst c2 \<longrightarrow> fst (snd c1) = fst (snd c2))"
    using assms(2) by (rule bspec)
  then have "(ref_UID (snd (snd c1)) = ref_UID (snd (snd c2)) \<longrightarrow> snd (snd c1) = snd (snd c2)) \<and>
      (fst c1 = fst c2 \<longrightarrow> fst (snd c1) = fst (snd c2))"
    using assms(3) by (rule bspec)
  then have "ref_UID (snd (snd c1)) = ref_UID (snd (snd c2)) \<longrightarrow> snd (snd c1) = snd (snd c2)"
    by (rule conjunct1)
  then show ?thesis using assms(4) by (rule mp)
qed

lemma consistent_key:
  assumes "consistent_contributions cs" and "c1 \<in> set cs" and "c2 \<in> set cs"
    and "fst c1 = fst c2"
  shows "fst (snd c1) = fst (snd c2)"
proof -
  from assms(1) have "\<forall>c1 \<in> set cs. \<forall>c2 \<in> set cs.
      (ref_UID (snd (snd c1)) = ref_UID (snd (snd c2)) \<longrightarrow> snd (snd c1) = snd (snd c2)) \<and>
      (fst c1 = fst c2 \<longrightarrow> fst (snd c1) = fst (snd c2))"
    by (simp only: consistent_contributions_def)
  then have "\<forall>c2 \<in> set cs.
      (ref_UID (snd (snd c1)) = ref_UID (snd (snd c2)) \<longrightarrow> snd (snd c1) = snd (snd c2)) \<and>
      (fst c1 = fst c2 \<longrightarrow> fst (snd c1) = fst (snd c2))"
    using assms(2) by (rule bspec)
  then have "(ref_UID (snd (snd c1)) = ref_UID (snd (snd c2)) \<longrightarrow> snd (snd c1) = snd (snd c2)) \<and>
      (fst c1 = fst c2 \<longrightarrow> fst (snd c1) = fst (snd c2))"
    using assms(3) by (rule bspec)
  then have "fst c1 = fst c2 \<longrightarrow> fst (snd c1) = fst (snd c2)"
    by (rule conjunct2)
  then show ?thesis using assms(4) by (rule mp)
qed

lemma key_refs_mem:
  "r \<in> set (key_refs k cs) \<Longrightarrow> \<exists>c \<in> set cs. r = snd (snd c)"
  unfolding key_refs_def by (simp only: set_map set_filter) blast

lemma consistent_refs:
  assumes "consistent_contributions cs"
  shows "\<forall>r1 \<in> set (key_refs k cs). \<forall>r2 \<in> set (key_refs k cs). ref_UID r1 = ref_UID r2 \<longrightarrow> r1 = r2"
proof (intro ballI impI)
  fix r1 r2
  assume r1: "r1 \<in> set (key_refs k cs)" and r2: "r2 \<in> set (key_refs k cs)"
    and u: "ref_UID r1 = ref_UID r2"
  from key_refs_mem [OF r1] obtain c1 where c1: "c1 \<in> set cs" "r1 = snd (snd c1)"
    by (elim bexE)
  from key_refs_mem [OF r2] obtain c2 where c2: "c2 \<in> set cs" "r2 = snd (snd c2)"
    by (elim bexE)
  from u c1 c2 have "ref_UID (snd (snd c1)) = ref_UID (snd (snd c2))" by simp
  from consistent_uid [OF assms c1(1) c2(1) this] c1 c2 show "r1 = r2" by simp
qed

lemma perm_map_of:
  assumes m: "mset cs' = mset cs" and cons: "consistent_contributions cs"
    and empty: "\<forall>c \<in> set cs. OwnerReferences (tun_Meta (fst (snd c))) = []"
  shows "map_of (fold contribute cs' []) k = map_of (fold contribute cs []) k"
proof -
  from m have s: "set cs' = set cs" by (rule mset_eq_setD)
  have refs: "fold addRef (key_refs k cs') [] = fold addRef (key_refs k cs) []"
  proof (rule fold_addRef_perm)
    show "\<forall>r1 \<in> set (key_refs k cs). \<forall>r2 \<in> set (key_refs k cs). ref_UID r1 = ref_UID r2 \<longrightarrow> r1 = r2"
      using cons by (rule consistent_refs)
    show "set (key_refs k cs') = set (key_refs k cs)"
      using s by (simp add: key_refs_def)
  qed
  show ?thesis
  proof (cases "find (\<lambda>c. fst c = k) cs")
    case None
    then have "k \<notin> fst ` set cs'" using s by (simp add: find_key_None)
    then have "find (\<lambda>c. fst c = k) cs' = None" by (simp add: find_key_None)
    with None show ?thesis by (simp add: fold_contribute_map_of base_tunnel_def)
  next
    case (Some c)
    from find_key_Some [OF Some] have c: "c \<in> set cs" "fst c = k" by simp_all
    then have "k \<in> fst ` set cs'" using s by auto
    then obtain c' where f': "find (\<lambda>c. fst c = k) cs' = Some c'"
      by (cases "find (\<lambda>c. fst c = k) cs'") (simp_all add: find_key_None)
    from find_key_Some [OF f'] s have c': "c' \<in> set cs" "fst c' = k" by simp_all
    from c c' have "fst c' = fst c" by simp
    from consistent_key [OF cons c'(1) c(1) this] have new: "fst (snd c') = fst (snd c)" .
    from empty c(1) have e: "OwnerReferences (tun_Meta (fst (snd c))) = []" by (rule bspec)
    from Some f' new e refs show ?thesis
      by (simp add: fold_contribute_map_of base_tunnel_def)
  qed
qed

text \<open>
  Claim C2, as stated, fails. The two paths \<open>/a\<close> and \<open>/b\<close> of one ingress resolve to the
  same key, and the tunnel of the key has one owner reference, not two.
\<close>

theorem calculateTunnelsFromIngress_counterexample:
  "map (ingressTunnelKey
          (ex_driver [ex_path_ingress ''ing1'' ''uid-1'' [ex_path ''/a'', ex_path ''/b'']]) ex_lib
          (ex_path_ingress ''ing1'' ''uid-1'' [ex_path ''/a'', ex_path ''/b'']))
     (ingress_backends (ex_path_ingress ''ing1'' ''uid-1'' [ex_path ''/a'', ex_path ''/b''])) =
     [ex_key, ex_key] \<and>
   calculateTunnelsFromIngress
     (ex_driver [ex_path_ingress ''ing1'' ''uid-1'' [ex_path ''/a'', ex_path ''/b'']]) ex_lib [] =
     Inr [(ex_key, ex_tunnel [ex_ref ''ing1'' ''uid-1''])] \<and>
   length (OwnerReferences (tun_Meta (ex_tunnel [ex_ref ''ing1'' ''uid-1'']))) = 1"
  by (simp add: contrib_defs tunnel_defs ex_defs)

text \<open>
  Claim C2, amended. When no rule of a tracked ingress has a nil \<open>HTTP\<close> (the calculator
  panics on one), the tunnel calculator returns a map with exactly one tunnel for each
  key (namespace, service, port) that a path of an ingress resolves to. The owner
  references of the tunnel of a key are sorted by UID, strictly ascending, and their UIDs
  are those of the ingresses with a path for the key, each once: two references when two
  ingresses with different UIDs have such a path, one when the paths are of one ingress.
  The map is the same for any store with the same contributions in another order, when
  a UID stands for one owner reference and the paths of a key resolve to the same data.
\<close>

theorem calculateTunnelsFromIngress_owners:
  assumes "rules_have_http d"
  shows "\<exists>tunnels.
     calculateTunnelsFromIngress d lib [] = Inr tunnels \<and>
     distinct (map fst tunnels) \<and>
     fst ` set tunnels = fst ` set (tunnel_contributions d lib) \<and>
     (\<forall>k t. map_of tunnels k = Some t \<longrightarrow>
        sorted_wrt (<) (map ref_UID (OwnerReferences (tun_Meta t))) \<and>
        set (map ref_UID (OwnerReferences (tun_Meta t))) = owner_uids d lib k \<and>
        length (OwnerReferences (tun_Meta t)) = card (owner_uids d lib k)) \<and>
     (\<forall>d' lib' tunnels'.
        calculateTunnelsFromIngress d' lib' [] = Inr tunnels' \<longrightarrow>
        mset (tunnel_contributions d' lib') = mset (tunnel_contributions d lib) \<longrightarrow>
        consistent_contributions (tunnel_contributions d lib) \<longrightarrow>
        map_of tunnels' = map_of tunnels)"
proof -
  let ?cs = "tunnel_contributions d lib"
  let ?ts = "fold contribute ?cs []"
  from assms have run: "calculateTunnelsFromIngress d lib [] = Inr ?ts"
    by (simp add: calculateTunnels_fold)
  have dist: "distinct (map fst ?ts)"
    by (simp add: fold_contribute_distinct)
  have keys: "fst ` set ?ts = fst ` set ?cs"
    by (rule calc_tunnel_keys)
  have owners: "\<forall>k t. map_of ?ts k = Some t \<longrightarrow>
        sorted_wrt (<) (map ref_UID (OwnerReferences (tun_Meta t))) \<and>
        set (map ref_UID (OwnerReferences (tun_Meta t))) = owner_uids d lib k \<and>
        length (OwnerReferences (tun_Meta t)) = card (owner_uids d lib k)"
  proof (intro allI impI)
    fix k t assume "map_of ?ts k = Some t"
    from calc_tunnel [OF this] obtain c where
      t: "t = withOwners (fst (snd c)) (fold addRef (key_refs k ?cs) [])" by auto
    then have o: "OwnerReferences (tun_Meta t) = fold addRef (key_refs k ?cs) []" by simp
    have srt: "sorted_wrt (<) (map ref_UID (OwnerReferences (tun_Meta t)))"
      unfolding o by (simp add: fold_addRef_sorted)
    have uids: "set (map ref_UID (OwnerReferences (tun_Meta t))) = owner_uids d lib k"
      unfolding o by (simp add: fold_addRef_uids key_refs_uids)
    from srt have "distinct (map ref_UID (OwnerReferences (tun_Meta t)))"
      by (simp add: strict_sorted_iff)
    then have "card (set (map ref_UID (OwnerReferences (tun_Meta t)))) =
        length (map ref_UID (OwnerReferences (tun_Meta t)))"
      by (rule distinct_card)
    with uids have len: "length (OwnerReferences (tun_Meta t)) = card (owner_uids d lib k)"
      by simp
    from srt uids len
    show "sorted_wrt (<) (map ref_UID (OwnerReferences (tun_Meta t))) \<and>
        set (map ref_UID (OwnerReferences (tun_Meta t))) = owner_uids d lib k \<and>
        length (OwnerReferences (tun_Meta t)) = card (owner_uids d lib k)"
      by (intro conjI)
  qed
  have perm: "\<forall>d' lib' tunnels'.
        calculateTunnelsFromIngress d' lib' [] = Inr tunnels' \<longrightarrow>
        mset (tunnel_contributions d' lib') = mset ?cs \<longrightarrow>
        consistent_contributions ?cs \<longrightarrow>
        map_of tunnels' = map_of ?ts"
  proof (intro allI impI)
    fix d' lib' tunnels'
    assume r': "calculateTunnelsFromIngress d' lib' [] = Inr tunnels'"
      and m: "mset (tunnel_contributions d' lib') = mset ?cs"
      and cons: "consistent_contributions ?cs"
    from r' have "tunnels' = fold contribute (tunnel_contributions d' lib') []"
      by (simp add: calculateTunnels_fold split: if_splits)
    moreover have "\<forall>c \<in> set ?cs. OwnerReferences (tun_Meta (fst (snd c))) = []"
      by (intro ballI contributions_new_owners)
    ultimately show "map_of tunnels' = map_of ?ts"
      using perm_map_of [OF m cons] by (intro ext) simp
  qed
  from run dist keys owners perm show ?thesis
    by (intro exI [of _ ?ts] conjI)
qed

theorem calculateTunnelsFromIngress_owners_witness:
  "rules_have_http (ex_driver [ex_path_ingress ''ing2'' ''uid-2'' [ex_path ''/b''],
                              ex_path_ingress ''ing1'' ''uid-1'' [ex_path ''/a'']]) \<and>
   calculateTunnelsFromIngress
     (ex_driver [ex_path_ingress ''ing2'' ''uid-2'' [ex_path ''/b''],
                 ex_path_ingress ''ing1'' ''uid-1'' [ex_path ''/a'']]) ex_lib [] =
     Inr [(ex_key, ex_tunnel [ex_ref ''ing1'' ''uid-1'', ex_ref ''ing2'' ''uid-2''])] \<and>
   owner_uids (ex_driver [ex_path_ingress ''ing2'' ''uid-2'' [ex_path ''/b''],
                          ex_path_ingress ''ing1'' ''uid-1'' [ex_path ''/a'']]) ex_lib ex_key =
     {''uid-1'', ''uid-2''} \<and>
   sorted_wrt (<) (map ref_UID (OwnerReferences (tun_Meta
     (ex_tunnel [ex_ref ''ing1'' ''uid-1'', ex_ref ''ing2'' ''uid-2''])))) \<and>
   length (OwnerReferences (tun_Meta (ex_tunnel [ex_ref ''ing1'' ''uid-1'', ex_ref ''ing2'' ''uid-2'']))) =
     card {''uid-1'', ''uid-2''} \<and>
   mset (tunnel_contributions
          (ex_driver [ex_path_ingress ''ing1'' ''uid-1'' [ex_path ''/a''],
                      ex_path_ingress ''ing2'' ''uid-2'' [ex_path ''/b'']]) ex_lib) =
   mset (tunnel_contributions
          (ex_driver [ex_path_ingress ''ing2'' ''uid-2'' [ex_path ''/b''],
                      ex_path_ingress ''ing1'' ''uid-1'' [ex_path ''/a'']]) ex_lib) \<and>
   consistent_contributions (tunnel_contributions
          (ex_driver [ex_path_ingress ''ing2'' ''uid-2'' [ex_path ''/b''],
                      ex_path_ingress ''ing1'' ''uid-1'' [ex_path ''/a'']]) ex_lib) \<and>
   (\<exists>tunnels'.
      calculateTunnelsFromIngress
        (ex_driver [ex_path_ingress ''ing1'' ''uid-1'' [ex_path ''/a''],
                    ex_path_ingress ''ing2'' ''uid-2'' [ex_path ''/b'']]) ex_lib [] = Inr tunnels' \<and>
      map_of tunnels' = map_of [(ex_key, ex_tunnel [ex_ref ''ing1'' ''uid-1'', ex_ref ''ing2'' ''uid-2''])])"
proof -
  let ?d = "ex_driver [ex_path_ingress ''ing2'' ''uid-2'' [ex_path ''/b''],
                      ex_path_ingress ''ing1'' ''uid-1'' [ex_path ''/a'']]"
  let ?d' = "ex_driver [ex_path_ingress ''ing1'' ''uid-1'' [ex_path ''/a''],
                       ex_path_ingress ''ing2'' ''uid-2'' [ex_path ''/b'']]"
  let ?T = "ex_tunnel [ex_ref ''ing1'' ''uid-1'', ex_ref ''ing2'' ''uid-2'']"
  have http: "rules_have_http ?d"
    by (simp add: rules_have_http_def ex_driver_def ex_path_ingress_def ex_ingress_def)
  have ev: "calculateTunnelsFromIngress ?d ex_lib [] = Inr [(ex_key, ?T)]"
    by (simp add: tunnel_defs ex_defs)
  have ev': "calculateTunnelsFromIngress ?d' ex_lib [] = Inr [(ex_key, ?T)]"
    by (simp add: tunnel_defs ex_defs)
  have c: "tunnel_contributions ?d ex_lib =
      [(ex_key, ex_tunnel [], ex_ref ''ing2'' ''uid-2''), (ex_key, ex_tunnel [], ex_ref ''ing1'' ''uid-1'')]"
    by (simp add: contrib_defs tunnel_defs ex_defs)
  have c': "tunnel_contributions ?d' ex_lib =
      [(ex_key, ex_tunnel [], ex_ref ''ing1'' ''uid-1''), (ex_key, ex_tunnel [], ex_ref ''ing2'' ''uid-2'')]"
    by (simp add: contrib_defs tunnel_defs ex_defs)
  have ms: "mset (tunnel_contributions ?d' ex_lib) = mset (tunnel_contributions ?d ex_lib)"
    by (simp add: c c' add_mset_commute)
  have cons: "consistent_contributions (tunnel_contributions ?d ex_lib)"
    by (simp add: c consistent_contributions_def ex_ref_def)
  have uids: "owner_uids ?d ex_lib ex_key = {''uid-1'', ''uid-2''}"
    by (auto simp add: key_refs_uids [symmetric] key_refs_def c ex_ref_def)
  have mo: "map_of [(ex_key, ?T)] ex_key = Some ?T" by simp
  from calculateTunnelsFromIngress_owners [OF http, of ex_lib] obtain tunnels where
    run: "calculateTunnelsFromIngress ?d ex_lib [] = Inr tunnels"
    and own: "\<forall>k t. map_of tunnels k = Some t \<longrightarrow>
        sorted_wrt (<) (map ref_UID (OwnerReferences (tun_Meta t))) \<and>
        set (map ref_UID (OwnerReferences (tun_Meta t))) = owner_uids ?d ex_lib k \<and>
        length (OwnerReferences (tun_Meta t)) = card (owner_uids ?d ex_lib k)"
    and perm: "\<forall>d' lib' tunnels'.
        calculateTunnelsFromIngress d' lib' [] = Inr tunnels' \<longrightarrow>
        mset (tunnel_contributions d' lib') = mset (tunnel_contributions ?d ex_lib) \<longrightarrow>
        consistent_contributions (tunnel_contributions ?d ex_lib) \<longrightarrow>
        map_of tunnels' = map_of tunnels"
    by (elim exE conjE)
  from run ev have ts: "tunnels = [(ex_key, ?T)]" by simp
  from own [THEN spec, THEN spec, THEN mp, OF mo [folded ts]]
  have o: "sorted_wrt (<) (map ref_UID (OwnerReferences (tun_Meta ?T)))"
    "length (OwnerReferences (tun_Meta ?T)) = card (owner_uids ?d ex_lib ex_key)"
    by simp_all
  from perm [THEN spec, THEN spec, THEN spec, THEN mp, THEN mp, THEN mp, OF ev' ms cons] ts ev'
  have p': "\<exists>tunnels'. calculateTunnelsFromIngress ?d' ex_lib [] = Inr tunnels' \<and>
      map_of tunnels' = map_of [(ex_key, ?T)]" by simp
  from http ev uids o ms cons p' show ?thesis by simp
qed


end
